theory Spec2Isabelle
  imports Main "HOL-Library.AList"
begin

section \<open>The future value calculator: request orchestration\<close>

text \<open>
  The component \<^verbatim>\<open>FutureValueCalculator\<close> keeps three numeric inputs, calls a remote
  service for the result and wraps that call in a cache, a spacing gate, a guard against
  overlapping requests and a debounce timer. The development below embeds that
  orchestration: the constants, the cache operations, \<^verbatim>\<open>fetchCalculation\<close> split at its
  single suspension (the awaited network call), and the three effects of the component.

  Conventions of the embedding.
  \<^item> Instants are integers (milliseconds); every \<^verbatim>\<open>Date.now()\<close> of the source is a
    separate argument of the function that reads it, named after the place of the read.
  \<^item> Numbers are integers here: the costs and years of the sliders are, and so are whole
    rates. \<^verbatim>\<open>Math.floor\<close> is then the identity and the template literal of the cache key
    prints a number in plain decimal. The half steps of the rate slider and typed decimals
    are left out; nothing below computes with an input beyond printing and comparing it.
  \<^item> A value of the response payload is a \<open>jsval\<close>; the typed interface of the source is
    erased at run time, so the fields of a result hold whatever the payload held.
  \<^item> What the browser keeps outside the component (the requests awaiting a response, the
    pending timeouts) are fields of the state too, so that a run can be replayed.
\<close>

subsection \<open>Constants\<close>

definition MIN_REQUEST_INTERVAL :: int where
  "MIN_REQUEST_INTERVAL = 1000"

definition DEBOUNCE_DELAY :: int where
  "DEBOUNCE_DELAY = 500"

definition CACHE_DURATION :: int where
  "CACHE_DURATION = 10 * 60 * 1000"

definition MAX_CACHE_SIZE :: nat where
  "MAX_CACHE_SIZE = 100"

subsection \<open>Values and records\<close>

datatype jsval = JUndefined | JNull | JBool bool | JNum int | JStr string

text \<open>The operand test of \<^verbatim>\<open>||\<close> and \<^verbatim>\<open>&&\<close>: every value is truthy but
  \<^verbatim>\<open>undefined\<close>, \<^verbatim>\<open>null\<close>, \<^verbatim>\<open>false\<close>, \<^verbatim>\<open>0\<close> and the empty string.\<close>

fun truthy :: "jsval \<Rightarrow> bool" where
  "truthy JUndefined = False"
| "truthy JNull = False"
| "truthy (JBool b) = b"
| "truthy (JNum n) = (n \<noteq> 0)"
| "truthy (JStr s) = (s \<noteq> [])"

definition js_or :: "jsval \<Rightarrow> jsval \<Rightarrow> jsval" where
  "js_or a b = (if truthy a then a else b)"

record CalculationResult =
  current_cost :: jsval
  inflation_rate :: jsval
  no_years :: jsval
  future_amount :: jsval

record CacheEntry =
  entry_result :: CalculationResult
  timestamp :: int
  hitCount :: int

text \<open>The parsed body of a response: the fields the component reads, \<open>JUndefined\<close> for a
  field the body does not have.\<close>

record payload =
  data_status :: jsval
  data_status_msg :: jsval
  data_current_cost :: jsval
  data_inflation_rate :: jsval
  data_no_years :: jsval
  data_future_amount :: jsval

text \<open>\<^verbatim>\<open>response.json()\<close> rejects on a body that is not JSON, with the parser's message,
  and resolves to \<^verbatim>\<open>null\<close> on the body \<^verbatim>\<open>null\<close>, of which no field can be read. Of any
  other JSON value the fields are read one by one; a value that is no object has none of
  them, which is the payload with every field \<open>JUndefined\<close>. The fields themselves hold
  primitive values.\<close>

datatype body = Unparsable string | JsonNull | JsonObject payload

datatype response = NetworkError string | HttpResponse int body

definition response_ok :: "int \<Rightarrow> bool" where
  "response_ok st = (200 \<le> st \<and> st \<le> 299)"

subsection \<open>The cache key\<close>

definition digit_char :: "nat \<Rightarrow> char" where
  "digit_char d = ''0123456789'' ! d"

fun digits :: "nat \<Rightarrow> string" where
  "digits n = (if n < 10 then [digit_char n] else digits (n div 10) @ [digit_char (n mod 10)])"

declare digits.simps [simp del]

definition number_to_string :: "int \<Rightarrow> string" where
  "number_to_string i = (if i < 0 then CHR ''-'' # digits (nat (- i)) else digits (nat i))"

definition getCacheKey :: "int \<Rightarrow> int \<Rightarrow> int \<Rightarrow> string" where
  "getCacheKey cost rate yrs =
     number_to_string cost @ ''-'' @ number_to_string rate @ ''-'' @ number_to_string yrs"

definition isCacheValid :: "int \<Rightarrow> int \<Rightarrow> bool" where
  "isCacheValid now ts = (now - ts < CACHE_DURATION)"

subsection \<open>The cache: a Map in insertion order\<close>

text \<open>A JavaScript \<^verbatim>\<open>Map\<close> iterates in insertion order; \<^verbatim>\<open>set\<close> on a present key keeps
  the key's place and on a new key appends. That is \<open>AList.update\<close> on an association
  list; \<^verbatim>\<open>get\<close> is \<open>map_of\<close>, \<^verbatim>\<open>delete\<close> is \<open>AList.delete\<close>, \<^verbatim>\<open>size\<close> is \<open>length\<close>.\<close>

type_synonym cache_map = "(string \<times> CacheEntry) list"

text \<open>The scan of lines 123-128: the loop variables are the accumulator.\<close>

fun scan_oldest :: "cache_map \<Rightarrow> string option \<Rightarrow> int \<Rightarrow> string option" where
  "scan_oldest [] oldestKey oldestTime = oldestKey"
| "scan_oldest ((key, entry) # rest) oldestKey oldestTime =
     (if timestamp entry < oldestTime
      then scan_oldest rest (Some key) (timestamp entry)
      else scan_oldest rest oldestKey oldestTime)"

text \<open>\<^verbatim>\<open>if (oldestKey)\<close> is false on \<^verbatim>\<open>null\<close> and on the empty string.\<close>

definition evict_oldest :: "int \<Rightarrow> cache_map \<Rightarrow> cache_map" where
  "evict_oldest t_scan c =
     (case scan_oldest c None t_scan of
        None \<Rightarrow> c
      | Some k \<Rightarrow> if k = [] then c else AList.delete k c)"

text \<open>Lines 113-133: store the entry, then evict when the map has outgrown its bound.\<close>

definition cache_store :: "string \<Rightarrow> CalculationResult \<Rightarrow> int \<Rightarrow> int \<Rightarrow> cache_map \<Rightarrow> cache_map" where
  "cache_store cacheKey calculationResult t_store t_scan c =
     (let c1 = AList.update cacheKey
                 \<lparr>entry_result = calculationResult, timestamp = t_store, hitCount = 1\<rparr> c
      in if length c1 > MAX_CACHE_SIZE then evict_oldest t_scan c1 else c1)"

subsection \<open>The component's state\<close>

text \<open>The three inputs as one triple: cost, rate, years.\<close>

type_synonym inputs = "int \<times> int \<times> int"

text \<open>A request awaiting its response is the suspended body of one \<^verbatim>\<open>fetchCalculation\<close>: it
  holds the arguments of the call, and the inputs its closure captured (\<^verbatim>\<open>useCallback\<close>
  rebuilds the function from the inputs of the render, line 156).\<close>

record fetch_ctx =
  ctx_env :: inputs
  ctx_args :: inputs

text \<open>The React state (lines 30-36), the refs (lines 38-42), and the environment: the
  requests awaiting a response, the parameters of every request sent, the pending retry
  timeouts (instant due, inputs captured by the callback), every call of
  \<^verbatim>\<open>fetchCalculation\<close> made by an effect or a timeout, and the latest instant read.
  The pending debounce timeout carries its instant due and the inputs its callback
  captured.\<close>

record state =
  currentCost :: int
  inflationRate :: int
  years :: int
  result :: "CalculationResult option"
  loading :: bool
  error :: "string option"
  mounted :: bool
  cache :: cache_map
  debounceTimer :: "(int \<times> inputs) option"
  lastRequestTime :: int
  requestQueue :: bool
  pendingRequest :: bool
  outstanding :: "fetch_ctx list"
  sent :: "inputs list"
  retryTimers :: "(int \<times> inputs) list"
  calls :: "inputs list"
  clock :: int

definition init_state :: state where
  "init_state =
     \<lparr>currentCost = 2500000, inflationRate = 6, years = 10, result = None, loading = False,
      error = None, mounted = False, cache = [], debounceTimer = None, lastRequestTime = 0,
      requestQueue = False, pendingRequest = False, outstanding = [], sent = [],
      retryTimers = [], calls = [], clock = 0\<rparr>"

definition current_inputs :: "state \<Rightarrow> inputs" where
  "current_inputs s = (currentCost s, inflationRate s, years s)"

subsection \<open>fetchCalculation, up to the awaited request\<close>

text \<open>Lines 66-91: the spacing gate, and the request when the gate lets it through.\<close>

definition rate_gate :: "inputs \<Rightarrow> inputs \<Rightarrow> int \<Rightarrow> state \<Rightarrow> state" where
  "rate_gate env args t_gate s =
     (if t_gate - lastRequestTime s < MIN_REQUEST_INTERVAL
      then s\<lparr>requestQueue := True\<rparr>
      else s\<lparr>pendingRequest := True, loading := True, error := None,
             outstanding := outstanding s @ [\<lparr>ctx_env = env, ctx_args = args\<rparr>],
             sent := sent s @ [args]\<rparr>)"

text \<open>Lines 52-91. \<open>t_valid\<close> is the instant read in \<^verbatim>\<open>isCacheValid\<close>, \<open>t_gate\<close> the one of
  line 66.\<close>

definition fetchCalculation ::
    "inputs \<Rightarrow> int \<Rightarrow> int \<Rightarrow> int \<Rightarrow> int \<Rightarrow> int \<Rightarrow> state \<Rightarrow> state" where
  "fetchCalculation env cost rate yrs t_valid t_gate s =
     (if pendingRequest s then s
      else
        let cacheKey = getCacheKey cost rate yrs in
        case map_of (cache s) cacheKey of
          None \<Rightarrow> rate_gate env (cost, rate, yrs) t_gate s
        | Some cached \<Rightarrow>
            if isCacheValid t_valid (timestamp cached)
            then s\<lparr>cache := AList.update cacheKey
                               (cached\<lparr>hitCount := hitCount cached + 1\<rparr>) (cache s),
                   result := Some (entry_result cached), error := None, loading := False\<rparr>
            else rate_gate env (cost, rate, yrs) t_gate s)"

subsection \<open>fetchCalculation, from the response on\<close>

definition rate_limit_message :: string where
  "rate_limit_message = ''Rate limit exceeded. Please wait before making another request.''"

definition failure_message :: string where
  "failure_message = ''Failed to calculate future value''"

text \<open>The message of the TypeError raised by reading \<^verbatim>\<open>data.status\<close> of \<^verbatim>\<open>null\<close>; its
  wording is the engine's.\<close>

definition null_read_message :: string where
  "null_read_message = ''Cannot read properties of null''"

text \<open>The message \<^verbatim>\<open>new Error(v)\<close> keeps is the string conversion of \<open>v\<close>.\<close>

fun js_to_string :: "jsval \<Rightarrow> string" where
  "js_to_string JUndefined = ''undefined''"
| "js_to_string JNull = ''null''"
| "js_to_string (JBool b) = (if b then ''true'' else ''false'')"
| "js_to_string (JNum n) = number_to_string n"
| "js_to_string (JStr s) = s"

text \<open>Lines 95-100.\<close>

definition on_rate_limited :: "state \<Rightarrow> state" where
  "on_rate_limited s =
     s\<lparr>error := Some rate_limit_message, pendingRequest := False, loading := False\<rparr>"

text \<open>Lines 138-141; every exception the body can raise is an \<^verbatim>\<open>Error\<close>.\<close>

definition on_catch :: "string \<Rightarrow> state \<Rightarrow> state" where
  "on_catch errorMessage s = s\<lparr>error := Some errorMessage, loading := False\<rparr>"

text \<open>Lines 106-111.\<close>

definition normalize_payload :: "payload \<Rightarrow> inputs \<Rightarrow> CalculationResult" where
  "normalize_payload d args =
     (case args of (cost, rate, yrs) \<Rightarrow>
        \<lparr>current_cost = js_or (data_current_cost d) (JNum cost),
         inflation_rate = js_or (data_inflation_rate d) (JNum rate),
         no_years = js_or (data_no_years d) (JNum yrs),
         future_amount = js_or (data_future_amount d) (JNum 0)\<rparr>)"

text \<open>Lines 106-137.\<close>

definition on_success :: "fetch_ctx \<Rightarrow> payload \<Rightarrow> int \<Rightarrow> int \<Rightarrow> int \<Rightarrow> state \<Rightarrow> state" where
  "on_success ctx d t_store t_scan t_done s =
     (case ctx_args ctx of (cost, rate, yrs) \<Rightarrow>
        let calculationResult = normalize_payload d (cost, rate, yrs) in
        s\<lparr>cache := cache_store (getCacheKey cost rate yrs) calculationResult t_store t_scan
                     (cache s),
          result := Some calculationResult, lastRequestTime := t_done, loading := False\<rparr>)"

text \<open>Lines 86-104: which way the awaited request ends. The body is parsed (line 93)
  before the status is looked at (line 95); \<open>Failed\<close> carries the message of the exception
  that reaches the \<^verbatim>\<open>catch\<close>.\<close>

datatype outcome = RateLimited | Failed string | Succeeded payload

definition outcome_of :: "response \<Rightarrow> outcome" where
  "outcome_of resp =
     (case resp of
        NetworkError msg \<Rightarrow> Failed msg
      | HttpResponse st b \<Rightarrow>
          (case b of
             Unparsable msg \<Rightarrow> Failed msg
           | JsonNull \<Rightarrow> if st = 429 then RateLimited else Failed null_read_message
           | JsonObject d \<Rightarrow>
               if st = 429 \<or> data_status d = JNum 429 then RateLimited
               else if \<not> response_ok st \<or> (truthy (data_status d) \<and> data_status d \<noteq> JNum 200)
               then Failed (js_to_string (js_or (data_status_msg d) (JStr failure_message)))
               else Succeeded d))"

text \<open>Lines 86-141: the \<^verbatim>\<open>try\<close> and the \<^verbatim>\<open>catch\<close>.\<close>

definition try_block :: "fetch_ctx \<Rightarrow> response \<Rightarrow> int \<Rightarrow> int \<Rightarrow> int \<Rightarrow> state \<Rightarrow> state" where
  "try_block ctx resp t_store t_scan t_done s =
     (case outcome_of resp of
        RateLimited \<Rightarrow> on_rate_limited s
      | Failed errorMessage \<Rightarrow> on_catch errorMessage s
      | Succeeded d \<Rightarrow> on_success ctx d t_store t_scan t_done s)"

text \<open>Lines 142-154. The timeout is taken to be set at the instant \<open>t_fin\<close> read on
  line 147; its callback calls the closure's own function with the closure's inputs.\<close>

definition finally_block :: "inputs \<Rightarrow> int \<Rightarrow> state \<Rightarrow> state" where
  "finally_block env t_fin s =
     (let s1 = s\<lparr>pendingRequest := False\<rparr> in
      if requestQueue s1
      then
        let s2 = s1\<lparr>requestQueue := False\<rparr>;
            retryTime = MIN_REQUEST_INTERVAL - (t_fin - lastRequestTime s2)
        in if retryTime > 0
           then s2\<lparr>retryTimers := retryTimers s2 @ [(t_fin + retryTime, env)]\<rparr>
           else s2
      else s1)"

definition fetch_complete ::
    "fetch_ctx \<Rightarrow> response \<Rightarrow> int \<Rightarrow> int \<Rightarrow> int \<Rightarrow> int \<Rightarrow> state \<Rightarrow> state" where
  "fetch_complete ctx resp t_store t_scan t_done t_fin s =
     finally_block (ctx_env ctx) t_fin (try_block ctx resp t_store t_scan t_done s)"

subsection \<open>The effects and the events of a run\<close>

text \<open>
  Hooks, as React defines them: \<^verbatim>\<open>useCallback\<close> returns a new function exactly when one of
  its dependencies differs from the previous render, so \<^verbatim>\<open>fetchCalculation\<close> is rebuilt
  exactly when an input changed (line 156); an effect runs after a render in which one of
  its dependencies differs, the cleanups of the effects that run coming first. A setter
  called with the value the state already has causes no render.
\<close>

text \<open>A call of \<^verbatim>\<open>fetchCalculation\<close> as every call site writes it (lines 150, 165, 177):
  with the inputs of the closure as arguments.\<close>

definition invoke :: "inputs \<Rightarrow> int \<Rightarrow> int \<Rightarrow> state \<Rightarrow> state" where
  "invoke env t_valid t_gate s =
     (case env of (c, r, y) \<Rightarrow>
        fetchCalculation env c r y t_valid t_gate (s\<lparr>calls := calls s @ [env]\<rparr>))"

text \<open>Mounting: the first render has \<open>mounted = False\<close>, so of its effects only line 160
  does anything; the render it causes runs the effect of line 163 (the call) and the
  effect of line 169 (the timeout, set at \<open>t_eff\<close>).\<close>

definition mount_effects :: "int \<Rightarrow> int \<Rightarrow> int \<Rightarrow> state \<Rightarrow> state" where
  "mount_effects t_valid t_gate t_eff s =
     (let s1 = s\<lparr>mounted := True\<rparr>;
          env = current_inputs s1;
          s2 = invoke env t_valid t_gate s1
      in s2\<lparr>debounceTimer := Some (t_eff + DEBOUNCE_DELAY, env)\<rparr>)"

datatype field = Cost | Rate | Years

definition set_input :: "field \<Rightarrow> int \<Rightarrow> state \<Rightarrow> state" where
  "set_input f v s =
     (case f of
        Cost \<Rightarrow> s\<lparr>currentCost := v\<rparr>
      | Rate \<Rightarrow> s\<lparr>inflationRate := v\<rparr>
      | Years \<Rightarrow> s\<lparr>years := v\<rparr>)"

text \<open>An input changes (lines 428-576 call the setters): the render rebuilds
  \<^verbatim>\<open>fetchCalculation\<close>, so both the effect of line 163 and the effect of line 169 have a
  changed dependency. The cleanup of line 180 clears the pending timeout, line 165 calls,
  line 176 sets the new timeout.\<close>

definition input_change :: "field \<Rightarrow> int \<Rightarrow> int \<Rightarrow> int \<Rightarrow> int \<Rightarrow> state \<Rightarrow> state" where
  "input_change f v t_valid t_gate t_eff s =
     (let s1 = set_input f v s in
      if current_inputs s1 = current_inputs s then s
      else
        let env = current_inputs s1;
            s2 = s1\<lparr>debounceTimer := None\<rparr>;
            s3 = invoke env t_valid t_gate s2
        in s3\<lparr>debounceTimer := Some (t_eff + DEBOUNCE_DELAY, env)\<rparr>)"

text \<open>The debounce timeout fires: line 177.\<close>

definition debounce_fire :: "int \<Rightarrow> int \<Rightarrow> state \<Rightarrow> state" where
  "debounce_fire t_valid t_gate s =
     (case debounceTimer s of
        None \<Rightarrow> s
      | Some (due, env) \<Rightarrow> invoke env t_valid t_gate (s\<lparr>debounceTimer := None\<rparr>))"

definition remove_nth :: "nat \<Rightarrow> 'a list \<Rightarrow> 'a list" where
  "remove_nth i xs = take i xs @ drop (Suc i) xs"

text \<open>A retry timeout fires: line 150.\<close>

definition retry_fire :: "nat \<Rightarrow> int \<Rightarrow> int \<Rightarrow> state \<Rightarrow> state" where
  "retry_fire i t_valid t_gate s =
     (if i < length (retryTimers s)
      then invoke (snd (retryTimers s ! i)) t_valid t_gate
             (s\<lparr>retryTimers := remove_nth i (retryTimers s)\<rparr>)
      else s)"

text \<open>The response of a request arrives and the suspended body runs to its end.\<close>

definition respond :: "nat \<Rightarrow> response \<Rightarrow> int \<Rightarrow> int \<Rightarrow> int \<Rightarrow> int \<Rightarrow> state \<Rightarrow> state" where
  "respond i resp t_store t_scan t_done t_fin s =
     (if i < length (outstanding s)
      then fetch_complete (outstanding s ! i) resp t_store t_scan t_done t_fin
             (s\<lparr>outstanding := remove_nth i (outstanding s)\<rparr>)
      else s)"

datatype event =
    Mount int int int
  | Input field int int int int
  | DebounceFire int int
  | RetryFire nat int int
  | Respond nat response int int int int

fun step :: "event \<Rightarrow> state \<Rightarrow> state" where
  "step (Mount tv tg te) s = (mount_effects tv tg te s)\<lparr>clock := te\<rparr>"
| "step (Input f v tv tg te) s = (input_change f v tv tg te s)\<lparr>clock := te\<rparr>"
| "step (DebounceFire tv tg) s = (debounce_fire tv tg s)\<lparr>clock := tg\<rparr>"
| "step (RetryFire i tv tg) s = (retry_fire i tv tg s)\<lparr>clock := tg\<rparr>"
| "step (Respond i resp ts tc td tf) s = (respond i resp ts tc td tf s)\<lparr>clock := tf\<rparr>"

text \<open>What the environment can do in a state: the component mounts once and takes input
  only when mounted, a timeout fires when it is pending and due, a response answers a
  request that awaits one, and the clock does not run backwards, neither between events
  nor between the reads of one event.\<close>

fun enabled :: "state \<Rightarrow> event \<Rightarrow> bool" where
  "enabled s (Mount tv tg te) = (\<not> mounted s \<and> clock s \<le> tv \<and> tv \<le> tg \<and> tg \<le> te)"
| "enabled s (Input f v tv tg te) = (mounted s \<and> clock s \<le> tv \<and> tv \<le> tg \<and> tg \<le> te)"
| "enabled s (DebounceFire tv tg) =
     ((case debounceTimer s of None \<Rightarrow> False | Some (due, env) \<Rightarrow> due \<le> tv)
      \<and> clock s \<le> tv \<and> tv \<le> tg)"
| "enabled s (RetryFire i tv tg) =
     (i < length (retryTimers s) \<and> fst (retryTimers s ! i) \<le> tv \<and> clock s \<le> tv \<and> tv \<le> tg)"
| "enabled s (Respond i resp ts tc td tf) =
     (i < length (outstanding s) \<and> clock s \<le> ts \<and> ts \<le> tc \<and> tc \<le> td \<and> td \<le> tf)"

text \<open>A run: the events in order, each enabled where it happens; \<open>None\<close> when one is not.\<close>

fun run :: "state \<Rightarrow> event list \<Rightarrow> state option" where
  "run s [] = Some s"
| "run s (e # es) = (if enabled s e then run (step e s) es else None)"

subsection \<open>Invariants of a run\<close>

text \<open>What a store relies on: distinct keys, none of them empty, the bound, and every
  entry older than the instant \<open>t\<close> of the store.\<close>

definition cache_ok :: "cache_map \<Rightarrow> int \<Rightarrow> bool" where
  "cache_ok c t \<longleftrightarrow>
     distinct (map fst c) \<and> length c \<le> MAX_CACHE_SIZE \<and>
     (\<forall>x\<in>set c. fst x \<noteq> [] \<and> timestamp (snd x) < t)"

text \<open>What holds of the component at every instant \<open>t\<close> from the latest read on: the cache
  is within its bound and no entry is younger than \<open>lastRequestTime\<close>; at most one request
  awaits its response, and one does exactly when \<open>pendingRequest\<close> is set; while it does,
  the gate it passed lies behind and no error is shown.\<close>

definition inv_at :: "int \<Rightarrow> state \<Rightarrow> bool" where
  "inv_at t s \<longleftrightarrow>
     distinct (map fst (cache s)) \<and> length (cache s) \<le> MAX_CACHE_SIZE \<and>
     (\<forall>x\<in>set (cache s). fst x \<noteq> [] \<and> timestamp (snd x) \<le> lastRequestTime s) \<and>
     lastRequestTime s \<le> t \<and> length (outstanding s) \<le> 1 \<and>
     (pendingRequest s \<longleftrightarrow> outstanding s \<noteq> []) \<and>
     (pendingRequest s \<longrightarrow> lastRequestTime s + MIN_REQUEST_INTERVAL \<le> t \<and> error s = None)"

definition invariant :: "state \<Rightarrow> bool" where
  "invariant s = inv_at (clock s) s"

subsection \<open>Sample data\<close>

text \<open>The payload of the scenario of the specification: the service echoes the request
  and answers 4476000.\<close>

definition sample_payload :: payload where
  "sample_payload =
     \<lparr>data_status = JNum 200, data_status_msg = JUndefined, data_current_cost = JNum 2500000,
      data_inflation_rate = JNum 6, data_no_years = JNum 10, data_future_amount = JNum 4476000\<rparr>"

definition sample_ok :: response where
  "sample_ok = HttpResponse 200 (JsonObject sample_payload)"

text \<open>The state once the component has mounted at instant 5000: the first request is
  on its way.\<close>

definition mounted_state :: state where
  "mounted_state =
     \<lparr>currentCost = 2500000, inflationRate = 6, years = 10, result = None, loading = True,
      error = None, mounted = True, cache = [], debounceTimer = Some (5500, 2500000, 6, 10),
      lastRequestTime = 0, requestQueue = False, pendingRequest = True,
      outstanding = [\<lparr>ctx_env = (2500000, 6, 10), ctx_args = (2500000, 6, 10)\<rparr>],
      sent = [(2500000, 6, 10)], retryTimers = [], calls = [(2500000, 6, 10)], clock = 5000\<rparr>"

text \<open>The result the sample payload yields, and the state once that payload has answered
  the first request at instant 5100.\<close>

definition sample_result :: CalculationResult where
  "sample_result =
     \<lparr>current_cost = JNum 2500000, inflation_rate = JNum 6, no_years = JNum 10,
      future_amount = JNum 4476000\<rparr>"

definition answered_state :: state where
  "answered_state =
     \<lparr>currentCost = 2500000, inflationRate = 6, years = 10, result = Some sample_result,
      loading = False, error = None, mounted = True,
      cache = [(''2500000-6-10'',
                \<lparr>entry_result = sample_result, timestamp = 5100, hitCount = 1\<rparr>)],
      debounceTimer = Some (5500, 2500000, 6, 10), lastRequestTime = 5100,
      requestQueue = False, pendingRequest = False, outstanding = [],
      sent = [(2500000, 6, 10)], retryTimers = [], calls = [(2500000, 6, 10)], clock = 5100\<rparr>"

text \<open>A well-formed answer of the service to a request: it echoes the request.\<close>

definition reply :: "inputs \<Rightarrow> int \<Rightarrow> response" where
  "reply args amount =
     (case args of (c, r, y) \<Rightarrow>
        HttpResponse 200 (JsonObject
          \<lparr>data_status = JNum 200, data_status_msg = JUndefined, data_current_cost = JNum c,
           data_inflation_rate = JNum r, data_no_years = JNum y,
           data_future_amount = JNum amount\<rparr>))"

text \<open>A run in which a call is deferred by the gate (the change of \<open>years\<close> at 5600, less
  than a second after the answer of 5100) and the debounced call of 6100 sends the
  request; its state has \<open>requestQueue\<close> set and the request on its way.\<close>

definition queued_events :: "event list" where
  "queued_events =
     [Mount 5000 5000 5000, Respond 0 sample_ok 5100 5100 5100 5100, DebounceFire 5500 5500,
      Input Years 11 5600 5600 5600, DebounceFire 6100 6100]"

definition queued_state :: state where
  "queued_state =
     \<lparr>currentCost = 2500000, inflationRate = 6, years = 11, result = Some sample_result,
      loading = True, error = None, mounted = True,
      cache = [(''2500000-6-10'',
                \<lparr>entry_result = sample_result, timestamp = 5100, hitCount = 2\<rparr>)],
      debounceTimer = None, lastRequestTime = 5100, requestQueue = True,
      pendingRequest = True,
      outstanding = [\<lparr>ctx_env = (2500000, 6, 11), ctx_args = (2500000, 6, 11)\<rparr>],
      sent = [(2500000, 6, 10), (2500000, 6, 11)], retryTimers = [],
      calls = [(2500000, 6, 10), (2500000, 6, 10), (2500000, 6, 11), (2500000, 6, 11)],
      clock = 6100\<rparr>"

text \<open>A run that fills the cache. Round \<open>j\<close> sets the cost to \<open>j\<close> at instant
  \<open>5000 + 2000 * j\<close>, which sends a request at once, the previous answer being 1900 ms old,
  and the service answers 100 ms later. \<open>filled n\<close> is the state after the mount round and
  \<open>n\<close> further rounds, \<open>filling n\<close> the state with the request of round \<open>n + 1\<close> on its
  way.\<close>

definition round_cost :: "nat \<Rightarrow> int" where
  "round_cost j = (if j = 0 then 2500000 else int j)"

definition round_inputs :: "nat \<Rightarrow> inputs" where
  "round_inputs j = (round_cost j, 6, 10)"

definition round_time :: "nat \<Rightarrow> int" where
  "round_time j = 5000 + 2000 * int j"

definition round_result :: "nat \<Rightarrow> CalculationResult" where
  "round_result j =
     \<lparr>current_cost = JNum (round_cost j), inflation_rate = JNum 6, no_years = JNum 10,
      future_amount = JNum 4476000\<rparr>"

definition round_entry :: "nat \<Rightarrow> string \<times> CacheEntry" where
  "round_entry j =
     (getCacheKey (round_cost j) 6 10,
      \<lparr>entry_result = round_result j, timestamp = round_time j + 100, hitCount = 1\<rparr>)"

definition round_events :: "nat \<Rightarrow> event list" where
  "round_events j =
     [Input Cost (round_cost j) (round_time j) (round_time j) (round_time j),
      Respond 0 (reply (round_inputs j) 4476000) (round_time j + 100) (round_time j + 100)
        (round_time j + 100) (round_time j + 100)]"

fun rounds :: "nat \<Rightarrow> event list" where
  "rounds 0 = []"
| "rounds (Suc n) = rounds n @ round_events (Suc n)"

definition filled :: "nat \<Rightarrow> state" where
  "filled n =
     \<lparr>currentCost = round_cost n, inflationRate = 6, years = 10,
      result = Some (round_result n), loading = False, error = None, mounted = True,
      cache = map round_entry [0..<Suc n],
      debounceTimer = Some (round_time n + 500, round_inputs n),
      lastRequestTime = round_time n + 100, requestQueue = False, pendingRequest = False,
      outstanding = [], sent = map round_inputs [0..<Suc n], retryTimers = [],
      calls = map round_inputs [0..<Suc n], clock = round_time n + 100\<rparr>"

definition filling :: "nat \<Rightarrow> state" where
  "filling n =
     (filled n)
       \<lparr>currentCost := round_cost (Suc n), loading := True,
        debounceTimer := Some (round_time (Suc n) + 500, round_inputs (Suc n)),
        pendingRequest := True,
        outstanding := [\<lparr>ctx_env = round_inputs (Suc n), ctx_args = round_inputs (Suc n)\<rparr>],
        sent := map round_inputs [0..<Suc (Suc n)],
        calls := map round_inputs [0..<Suc (Suc n)], clock := round_time (Suc n)\<rparr>"

definition full_events :: "event list" where
  "full_events =
     [Mount 5000 5000 5000, Respond 0 sample_ok 5100 5100 5100 5100] @ rounds 99 @
     [Input Cost 100 205000 205000 205000]"

section \<open>Properties\<close>

subsection \<open>Evaluation\<close>

lemmas run_defs =
  init_state_def mount_effects_def input_change_def debounce_fire_def retry_fire_def respond_def
  invoke_def fetchCalculation_def rate_gate_def fetch_complete_def try_block_def outcome_of_def
  finally_block_def on_success_def on_catch_def on_rate_limited_def normalize_payload_def js_or_def
  cache_store_def evict_oldest_def current_inputs_def set_input_def remove_nth_def
  MIN_REQUEST_INTERVAL_def DEBOUNCE_DELAY_def CACHE_DURATION_def MAX_CACHE_SIZE_def
  isCacheValid_def response_ok_def getCacheKey_def number_to_string_def digits.simps
  digit_char_def Let_def sample_payload_def sample_ok_def

subsection \<open>The cache\<close>

lemma scan_oldest_none:
  "\<forall>x\<in>set c. \<not> timestamp (snd x) < t \<Longrightarrow> scan_oldest c ok t = ok"
  by (induction c arbitrary: ok t) auto

lemma scan_oldest_min:
  "\<exists>x\<in>set c. timestamp (snd x) < t \<Longrightarrow>
   \<exists>k e. scan_oldest c ok t = Some k \<and> (k, e) \<in> set c \<and> timestamp e < t \<and>
         (\<forall>x\<in>set c. timestamp e \<le> timestamp (snd x))"
proof (induction c arbitrary: ok t)
  case Nil
  then show ?case by simp
next
  case (Cons a rest)
  obtain k0 e0 where a: "a = (k0, e0)" by (cases a)
  show ?case
  proof (cases "timestamp e0 < t")
    case True
    show ?thesis
    proof (cases "\<exists>x\<in>set rest. timestamp (snd x) < timestamp e0")
      case True
      from Cons.IH [OF True, of "Some k0"] obtain k e where
        "scan_oldest rest (Some k0) (timestamp e0) = Some k" "(k, e) \<in> set rest"
        "timestamp e < timestamp e0" "\<forall>x\<in>set rest. timestamp e \<le> timestamp (snd x)"
        by blast
      with \<open>timestamp e0 < t\<close> a show ?thesis
        by (intro exI [of _ k] exI [of _ e]) auto
    next
      case False
      then have "scan_oldest rest (Some k0) (timestamp e0) = Some k0"
        by (intro scan_oldest_none) auto
      with False \<open>timestamp e0 < t\<close> a show ?thesis
        by (intro exI [of _ k0] exI [of _ e0]) (auto simp: not_less)
    qed
  next
    case False
    with Cons.prems a have "\<exists>x\<in>set rest. timestamp (snd x) < t" by auto
    from Cons.IH [OF this, of ok] obtain k e where
      "scan_oldest rest ok t = Some k" "(k, e) \<in> set rest"
      "timestamp e < t" "\<forall>x\<in>set rest. timestamp e \<le> timestamp (snd x)"
      by blast
    with False a show ?thesis
      by (intro exI [of _ k] exI [of _ e]) auto
  qed
qed


lemma length_update:
  "length (AList.update k v al) = (if k \<in> fst ` set al then length al else Suc (length al))"
proof -
  have "length (AList.update k v al) = length (map fst (AList.update k v al))" by simp
  also have "\<dots> = (if k \<in> fst ` set al then length al else Suc (length al))"
    by (simp only: update_keys) simp
  finally show ?thesis .
qed

lemma set_update_subset: "set (AList.update k v al) \<subseteq> insert (k, v) (set al)"
  by (induction al) auto

lemma set_update_new: "k \<notin> fst ` set al \<Longrightarrow> set (AList.update k v al) = insert (k, v) (set al)"
  by (induction al) auto

lemma length_delete_distinct:
  assumes "distinct (map fst al)" "(k, v) \<in> set al"
  shows "length (AList.delete k al) = length al - 1"
proof -
  have "k \<in> set (map fst al)" using assms(2) by force
  have "length (AList.delete k al) = length (map fst (AList.delete k al))" by simp
  also have "\<dots> = length (removeAll k (map fst al))" by (simp only: delete_keys)
  also have "\<dots> = length (remove1 k (map fst al))"
    using assms(1) by (simp add: distinct_remove1_removeAll)
  also have "\<dots> = length al - 1"
    using \<open>k \<in> set (map fst al)\<close> by (simp add: length_remove1)
  finally show ?thesis .
qed

lemma cache_store_small:
  "length (AList.update key \<lparr>entry_result = r, timestamp = ts, hitCount = 1\<rparr> c) \<le> MAX_CACHE_SIZE \<Longrightarrow>
   cache_store key r ts tc c = AList.update key \<lparr>entry_result = r, timestamp = ts, hitCount = 1\<rparr> c"
  by (simp add: cache_store_def Let_def)

lemma cache_store_evicts:
  assumes ok: "cache_ok c ts" and le: "ts \<le> tc"
    and c1: "c1 = AList.update key \<lparr>entry_result = r, timestamp = ts, hitCount = 1\<rparr> c"
    and big: "length c1 > MAX_CACHE_SIZE"
  shows "\<exists>k e. (k, e) \<in> set c \<and> (k, e) \<in> set c1 \<and> k \<noteq> key \<and>
           (\<forall>x\<in>set c1. timestamp e \<le> timestamp (snd x)) \<and>
           cache_store key r ts tc c = AList.delete k c1 \<and>
           length (cache_store key r ts tc c) = MAX_CACHE_SIZE"
proof -
  let ?entry = "\<lparr>entry_result = r, timestamp = ts, hitCount = 1\<rparr>"
  from ok have dist: "distinct (map fst c)" and len: "length c \<le> MAX_CACHE_SIZE"
    and old: "\<forall>x\<in>set c. fst x \<noteq> [] \<and> timestamp (snd x) < ts"
    by (simp_all add: cache_ok_def)
  from big len c1 have new: "key \<notin> fst ` set c" and len1: "length c1 = Suc (length c)"
    by (auto simp: length_update split: if_splits)
  with big len have full: "length c = MAX_CACHE_SIZE" by simp
  have set1: "set c1 = insert (key, ?entry) (set c)"
    using new c1 by (simp add: set_update_new)
  from full have "c \<noteq> []" by (auto simp: MAX_CACHE_SIZE_def)
  then obtain x0 where x0: "x0 \<in> set c" by (cases c) auto
  with old le set1 have "\<exists>x\<in>set c1. timestamp (snd x) < tc" by force
  from scan_oldest_min [OF this, of None] obtain k e where
    scan: "scan_oldest c1 None tc = Some k" and mem: "(k, e) \<in> set c1"
    and least: "\<forall>x\<in>set c1. timestamp e \<le> timestamp (snd x)"
    by blast
  have "(k, e) \<noteq> (key, ?entry)"
  proof
    assume "(k, e) = (key, ?entry)"
    then have "timestamp e = ts" by simp
    moreover from least x0 set1 have "timestamp e \<le> timestamp (snd x0)" by simp
    moreover from old x0 have "timestamp (snd x0) < ts" by simp
    ultimately show False by simp
  qed
  with mem set1 have in_c: "(k, e) \<in> set c" by auto
  with old have "k \<noteq> []" by force
  from in_c new have "k \<noteq> key" by force
  have store: "cache_store key r ts tc c = AList.delete k c1"
    using big scan \<open>k \<noteq> []\<close> c1 by (simp add: cache_store_def evict_oldest_def Let_def)
  have "distinct (map fst c1)" using dist c1 by (simp add: distinct_update)
  from length_delete_distinct [OF this mem] len1 full
  have "length (AList.delete k c1) = MAX_CACHE_SIZE" by simp
  with store in_c mem \<open>k \<noteq> key\<close> least show ?thesis by auto
qed


lemma set_delete_subset: "set (AList.delete k al) \<subseteq> set al"
  by (auto simp: AList.delete_eq)

lemma cache_store_ok:
  assumes ok: "cache_ok c ts" and le: "ts \<le> tc"
  shows "distinct (map fst (cache_store key r ts tc c)) \<and>
         length (cache_store key r ts tc c) \<le> MAX_CACHE_SIZE \<and>
         set (cache_store key r ts tc c) \<subseteq>
           insert (key, \<lparr>entry_result = r, timestamp = ts, hitCount = 1\<rparr>) (set c) \<and>
         map_of (cache_store key r ts tc c) key =
           Some \<lparr>entry_result = r, timestamp = ts, hitCount = 1\<rparr>"
proof -
  let ?entry = "\<lparr>entry_result = r, timestamp = ts, hitCount = 1\<rparr>"
  let ?c1 = "AList.update key ?entry c"
  from ok have dist1: "distinct (map fst ?c1)"
    by (simp add: cache_ok_def distinct_update)
  have sub1: "set ?c1 \<subseteq> insert (key, ?entry) (set c)" by (rule set_update_subset)
  have get1: "map_of ?c1 key = Some ?entry" by (simp add: update_conv')
  show ?thesis
  proof (cases "length ?c1 \<le> MAX_CACHE_SIZE")
    case True
    then have "cache_store key r ts tc c = ?c1" by (rule cache_store_small)
    with True dist1 sub1 get1 show ?thesis by simp
  next
    case False
    then have "length ?c1 > MAX_CACHE_SIZE" by simp
    from cache_store_evicts [OF ok le refl this] obtain k where
      k: "k \<noteq> key" "cache_store key r ts tc c = AList.delete k ?c1"
      "length (cache_store key r ts tc c) = MAX_CACHE_SIZE"
      by blast
    have "set (AList.delete k ?c1) \<subseteq> insert (key, ?entry) (set c)"
      using set_delete_subset [of k ?c1] sub1 by blast
    moreover have "map_of (AList.delete k ?c1) key = Some ?entry"
      using k(1) get1 by simp
    moreover have "distinct (map fst (AList.delete k ?c1))"
      using dist1 by (rule distinct_delete)
    ultimately show ?thesis using k(2,3) by simp
  qed
qed

lemma getCacheKey_nonempty: "getCacheKey c r y \<noteq> []"
  by (simp add: getCacheKey_def)

lemma inv_at_mono: "inv_at t s \<Longrightarrow> t \<le> t' \<Longrightarrow> inv_at t' s"
  by (auto simp: inv_at_def)

lemma rate_gate_inv:
  assumes "inv_at t s" "\<not> pendingRequest s" "t \<le> tg"
  shows "inv_at tg (rate_gate env args tg s)"
  using assms by (auto simp: inv_at_def rate_gate_def)

lemma fetchCalculation_inv:
  assumes i: "inv_at t s" and le: "t \<le> tg"
  shows "inv_at tg (fetchCalculation env c r y tv tg s)"
proof (cases "pendingRequest s")
  case True
  then have "fetchCalculation env c r y tv tg s = s" by (simp add: fetchCalculation_def)
  with i le show ?thesis by (simp add: inv_at_mono)
next
  case False
  show ?thesis
  proof (cases "map_of (cache s) (getCacheKey c r y)")
    case None
    with False have "fetchCalculation env c r y tv tg s = rate_gate env (c, r, y) tg s"
      by (simp add: fetchCalculation_def)
    with rate_gate_inv [OF i False le] show ?thesis by simp
  next
    case (Some cached)
    show ?thesis
    proof (cases "isCacheValid tv (timestamp cached)")
      case False
      with Some \<open>\<not> pendingRequest s\<close>
      have "fetchCalculation env c r y tv tg s = rate_gate env (c, r, y) tg s"
        by (simp add: fetchCalculation_def)
      with rate_gate_inv [OF i \<open>\<not> pendingRequest s\<close> le] show ?thesis by simp
    next
      case True
      let ?k = "getCacheKey c r y"
      let ?e = "cached\<lparr>hitCount := hitCount cached + 1\<rparr>"
      from Some have mem: "(?k, cached) \<in> set (cache s)" by (rule map_of_SomeD)
      then have key: "?k \<in> fst ` set (cache s)" by force
      have sub: "set (AList.update ?k ?e (cache s)) \<subseteq> insert (?k, ?e) (set (cache s))"
        by (rule set_update_subset)
      have eq: "fetchCalculation env c r y tv tg s =
          s\<lparr>cache := AList.update ?k ?e (cache s), result := Some (entry_result cached),
            error := None, loading := False\<rparr>"
        using True Some \<open>\<not> pendingRequest s\<close> by (simp add: fetchCalculation_def)
      have "\<forall>x\<in>set (AList.update ?k ?e (cache s)).
              fst x \<noteq> [] \<and> timestamp (snd x) \<le> lastRequestTime s"
      proof
        fix x assume "x \<in> set (AList.update ?k ?e (cache s))"
        with sub have "x = (?k, ?e) \<or> x \<in> set (cache s)" by blast
        then show "fst x \<noteq> [] \<and> timestamp (snd x) \<le> lastRequestTime s"
          using i mem by (auto simp: inv_at_def)
      qed
      then show ?thesis
        using i le key \<open>\<not> pendingRequest s\<close>
        by (simp add: eq inv_at_def distinct_update length_update)
    qed
  qed
qed


lemma inv_at_update [simp]:
  "inv_at t (s\<lparr>calls := a\<rparr>) = inv_at t s"
  "inv_at t (s\<lparr>debounceTimer := b\<rparr>) = inv_at t s"
  "inv_at t (s\<lparr>retryTimers := c\<rparr>) = inv_at t s"
  "inv_at t (s\<lparr>mounted := d\<rparr>) = inv_at t s"
  "inv_at t (s\<lparr>clock := e\<rparr>) = inv_at t s"
  "inv_at t (s\<lparr>currentCost := f\<rparr>) = inv_at t s"
  "inv_at t (s\<lparr>inflationRate := g\<rparr>) = inv_at t s"
  "inv_at t (s\<lparr>years := h\<rparr>) = inv_at t s"
  by (simp_all add: inv_at_def)

lemma finally_block_fields:
  "cache (finally_block env tf s) = cache s"
  "lastRequestTime (finally_block env tf s) = lastRequestTime s"
  "outstanding (finally_block env tf s) = outstanding s"
  "error (finally_block env tf s) = error s"
  "result (finally_block env tf s) = result s"
  "loading (finally_block env tf s) = loading s"
  "pendingRequest (finally_block env tf s) = False"
  by (simp_all add: finally_block_def Let_def)

lemma try_block_fields:
  "outstanding (try_block ctx resp ts tc td s) = outstanding s"
  "cache (try_block ctx resp ts tc td s) =
     (case outcome_of resp of
        Succeeded d \<Rightarrow> cache_store (getCacheKey (fst (ctx_args ctx)) (fst (snd (ctx_args ctx)))
                          (snd (snd (ctx_args ctx)))) (normalize_payload d (ctx_args ctx)) ts tc (cache s)
      | _ \<Rightarrow> cache s)"
  "lastRequestTime (try_block ctx resp ts tc td s) =
     (case outcome_of resp of Succeeded d \<Rightarrow> td | _ \<Rightarrow> lastRequestTime s)"
  by (simp_all add: try_block_def on_rate_limited_def on_catch_def on_success_def Let_def
      split: outcome.splits prod.splits)

lemma fetch_complete_inv:
  assumes i: "inv_at t s" and p: "pendingRequest s"
    and le: "t \<le> ts" "ts \<le> tc" "tc \<le> td" "td \<le> tf"
  shows "inv_at tf (fetch_complete ctx resp ts tc td tf (s\<lparr>outstanding := []\<rparr>))"
proof -
  let ?s0 = "s\<lparr>outstanding := []\<rparr>"
  let ?s1 = "try_block ctx resp ts tc td ?s0"
  from i p have gate: "lastRequestTime s + MIN_REQUEST_INTERVAL \<le> t" by (simp add: inv_at_def)
  have ok: "cache_ok (cache s) ts"
    using i gate le(1) by (fastforce simp: inv_at_def cache_ok_def MIN_REQUEST_INTERVAL_def)
  have c: "distinct (map fst (cache ?s1)) \<and> length (cache ?s1) \<le> MAX_CACHE_SIZE \<and>
      (\<forall>x\<in>set (cache ?s1). fst x \<noteq> [] \<and> timestamp (snd x) \<le> lastRequestTime ?s1) \<and>
      lastRequestTime ?s1 \<le> tf"
  proof (cases "outcome_of resp")
    case (Succeeded d)
    let ?key = "getCacheKey (fst (ctx_args ctx)) (fst (snd (ctx_args ctx))) (snd (snd (ctx_args ctx)))"
    let ?r = "normalize_payload d (ctx_args ctx)"
    note st = cache_store_ok [OF ok le(2), of ?key ?r]
    have "\<forall>x\<in>set (cache_store ?key ?r ts tc (cache s)). fst x \<noteq> [] \<and> timestamp (snd x) \<le> td"
    proof
      fix x assume "x \<in> set (cache_store ?key ?r ts tc (cache s))"
      with st have "x = (?key, \<lparr>entry_result = ?r, timestamp = ts, hitCount = 1\<rparr>) \<or> x \<in> set (cache s)"
        by blast
      then show "fst x \<noteq> [] \<and> timestamp (snd x) \<le> td"
        using ok le by (auto simp: cache_ok_def getCacheKey_nonempty)
    qed
    with st le show ?thesis by (simp add: try_block_fields Succeeded)
  next
    case RateLimited
    with i gate le show ?thesis
      by (simp add: try_block_fields inv_at_def MIN_REQUEST_INTERVAL_def)
  next
    case (Failed m)
    with i gate le show ?thesis
      by (simp add: try_block_fields inv_at_def MIN_REQUEST_INTERVAL_def)
  qed
  have "outstanding ?s1 = []" by (simp add: try_block_fields)
  with c show ?thesis
    unfolding fetch_complete_def by (simp add: inv_at_def finally_block_fields)
qed

lemma invoke_inv: "inv_at t s \<Longrightarrow> t \<le> tg \<Longrightarrow> inv_at tg (invoke env tv tg s)"
  by (cases env) (simp add: invoke_def fetchCalculation_inv)

lemma step_inv:
  assumes i: "invariant s" and en: "enabled s e"
  shows "invariant (step e s)"
proof (cases e)
  case (Mount tv tg te)
  with en have le: "clock s \<le> tg" "tg \<le> te" by auto
  from i have "inv_at tg (invoke (current_inputs (s\<lparr>mounted := True\<rparr>)) tv tg (s\<lparr>mounted := True\<rparr>))"
    by (intro invoke_inv [OF _ le(1)]) (simp add: invariant_def)
  then show ?thesis
    using le Mount by (simp add: invariant_def mount_effects_def Let_def inv_at_mono)
next
  case (Input f v tv tg te)
  with en have le: "clock s \<le> tg" "tg \<le> te" by auto
  let ?s2 = "(set_input f v s)\<lparr>debounceTimer := None\<rparr>"
  from i have "inv_at (clock s) ?s2"
    by (cases f) (simp_all add: invariant_def set_input_def)
  then have "inv_at tg (invoke (current_inputs (set_input f v s)) tv tg ?s2)"
    by (rule invoke_inv [OF _ le(1)])
  with i le show ?thesis
    using Input by (auto simp: invariant_def input_change_def Let_def intro: inv_at_mono)
next
  case (DebounceFire tv tg)
  with en have le: "clock s \<le> tg" by auto
  show ?thesis
  proof (cases "debounceTimer s")
    case None
    with i le DebounceFire show ?thesis
      by (auto simp: invariant_def debounce_fire_def intro: inv_at_mono)
  next
    case (Some a)
    obtain due env where a: "a = (due, env)" by (cases a)
    from i have "inv_at tg (invoke env tv tg (s\<lparr>debounceTimer := None\<rparr>))"
      by (intro invoke_inv [OF _ le]) (simp add: invariant_def)
    with Some a DebounceFire show ?thesis
      by (simp add: invariant_def debounce_fire_def)
  qed
next
  case (RetryFire n tv tg)
  with en have le: "clock s \<le> tg" and n: "n < length (retryTimers s)" by auto
  from i have "inv_at tg (invoke (snd (retryTimers s ! n)) tv tg
                 (s\<lparr>retryTimers := remove_nth n (retryTimers s)\<rparr>))"
    by (intro invoke_inv [OF _ le]) (simp add: invariant_def)
  with n RetryFire show ?thesis by (simp add: invariant_def retry_fire_def)
next
  case (Respond n resp ts tc td tf)
  with en have n: "n < length (outstanding s)"
    and le: "clock s \<le> ts" "ts \<le> tc" "tc \<le> td" "td \<le> tf" by auto
  from i n have one: "length (outstanding s) = 1" and p: "pendingRequest s"
    by (auto simp: invariant_def inv_at_def)
  with n have "remove_nth n (outstanding s) = []" by (simp add: remove_nth_def)
  moreover from i have "inv_at (clock s) s" by (simp add: invariant_def)
  note fetch_complete_inv [OF this p le]
  ultimately show ?thesis
    using n Respond by (simp add: invariant_def respond_def)
qed

lemma init_inv: "invariant init_state"
  by (simp add: invariant_def inv_at_def init_state_def)

lemma run_inv: "invariant s \<Longrightarrow> run s es = Some s' \<Longrightarrow> invariant s'"
proof (induction es arbitrary: s)
  case Nil
  then show ?case by simp
next
  case (Cons e es)
  from Cons.prems(2) have en: "enabled s e" and r: "run (step e s) es = Some s'"
    by (auto split: if_splits)
  from Cons.IH [OF step_inv [OF Cons.prems(1) en] r] show ?case .
qed

subsection \<open>Fields after a response\<close>

lemma try_block_more:
  "result (try_block ctx resp ts tc td s) =
     (case outcome_of resp of Succeeded d \<Rightarrow> Some (normalize_payload d (ctx_args ctx)) | _ \<Rightarrow> result s)"
  "error (try_block ctx resp ts tc td s) =
     (case outcome_of resp of
        Succeeded d \<Rightarrow> error s | RateLimited \<Rightarrow> Some rate_limit_message | Failed m \<Rightarrow> Some m)"
  "loading (try_block ctx resp ts tc td s) = False"
  "requestQueue (try_block ctx resp ts tc td s) = requestQueue s"
  "retryTimers (try_block ctx resp ts tc td s) = retryTimers s"
  "currentCost (try_block ctx resp ts tc td s) = currentCost s"
  "inflationRate (try_block ctx resp ts tc td s) = inflationRate s"
  "years (try_block ctx resp ts tc td s) = years s"
  "mounted (try_block ctx resp ts tc td s) = mounted s"
  by (simp_all add: try_block_def on_rate_limited_def on_catch_def on_success_def Let_def
      split: outcome.splits prod.splits)

lemma finally_block_more:
  "requestQueue (finally_block env tf s) = False"
  "retryTimers (finally_block env tf s) =
     (if requestQueue s \<and> 0 < MIN_REQUEST_INTERVAL - (tf - lastRequestTime s)
      then retryTimers s @ [(tf + (MIN_REQUEST_INTERVAL - (tf - lastRequestTime s)), env)]
      else retryTimers s)"
  "currentCost (finally_block env tf s) = currentCost s"
  "inflationRate (finally_block env tf s) = inflationRate s"
  "years (finally_block env tf s) = years s"
  "mounted (finally_block env tf s) = mounted s"
  by (simp_all add: finally_block_def Let_def)

lemmas respond_fields =
  respond_def fetch_complete_def finally_block_fields finally_block_more try_block_fields
  try_block_more

lemma respond_cache:
  assumes "i < length (outstanding s)" "outcome_of resp = Succeeded d"
  shows "cache (step (Respond i resp ts tc td tf) s) =
    cache_store (getCacheKey (fst (ctx_args (outstanding s ! i)))
                   (fst (snd (ctx_args (outstanding s ! i))))
                   (snd (snd (ctx_args (outstanding s ! i)))))
      (normalize_payload d (ctx_args (outstanding s ! i))) ts tc (cache s)"
  using assms by (simp add: respond_def fetch_complete_def finally_block_fields try_block_fields)

lemma fetchCalculation_last:
  "lastRequestTime (fetchCalculation env c r y tv tg s) = lastRequestTime s"
  by (simp add: fetchCalculation_def rate_gate_def Let_def split: option.splits)

lemma invoke_last: "lastRequestTime (invoke env tv tg s) = lastRequestTime s"
  by (cases env) (simp add: invoke_def fetchCalculation_last)

lemma truthy_iff:
  "truthy v \<longleftrightarrow> v \<noteq> JUndefined \<and> v \<noteq> JNull \<and> v \<noteq> JBool False \<and> v \<noteq> JNum 0 \<and> v \<noteq> JStr []"
  by (cases v) auto

subsection \<open>Sample runs\<close>

lemma run_mount: "run init_state [Mount 5000 5000 5000] = Some mounted_state"
  by (simp add: run_defs mounted_state_def)

lemma step_answered:
  "step (Respond 0 sample_ok 5100 5100 5100 5100) mounted_state = answered_state"
  by (simp add: run_defs mounted_state_def answered_state_def sample_result_def)

lemma run_answered:
  "run init_state [Mount 5000 5000 5000, Respond 0 sample_ok 5100 5100 5100 5100]
     = Some answered_state"
  by (simp add: run_defs answered_state_def sample_result_def)

lemma sample_key: "getCacheKey 2500000 6 10 = ''2500000-6-10''"
  by (simp add: run_defs)

lemma run_queued: "run init_state queued_events = Some queued_state"
  by (simp add: run_defs queued_events_def queued_state_def sample_result_def)

subsection \<open>Filling the cache\<close>

lemma digit_char_inj: "a < 10 \<Longrightarrow> b < 10 \<Longrightarrow> digit_char a = digit_char b \<Longrightarrow> a = b"
proof -
  assume "a < 10" "b < 10" "digit_char a = digit_char b"
  have "distinct ''0123456789''" by simp
  from nth_eq_iff_index_eq [OF this, of a b] \<open>a < 10\<close> \<open>b < 10\<close> \<open>digit_char a = digit_char b\<close>
  show "a = b" by (simp add: digit_char_def)
qed

lemma digits_nonempty: "digits n \<noteq> []"
  by (subst digits.simps) simp

lemma digits_inj: "digits m = digits n \<Longrightarrow> m = n"
proof (induction m arbitrary: n rule: digits.induct)
  case (1 m)
  show ?case
  proof (cases "m < 10")
    case True
    show ?thesis
    proof (cases "n < 10")
      case True
      with \<open>m < 10\<close> "1.prems" show ?thesis
        by (simp add: digits.simps [of m] digits.simps [of n] digit_char_inj)
    next
      case False
      with \<open>m < 10\<close> "1.prems" digits_nonempty [of "n div 10"] show ?thesis
        by (simp add: digits.simps [of m] digits.simps [of n])
    qed
  next
    case False
    show ?thesis
    proof (cases "n < 10")
      case True
      with False "1.prems" digits_nonempty [of "m div 10"] show ?thesis
        by (simp add: digits.simps [of m] digits.simps [of n])
    next
      case nb: False
      with False "1.prems" have d: "digits (m div 10) = digits (n div 10)"
        and c: "digit_char (m mod 10) = digit_char (n mod 10)"
        by (simp_all add: digits.simps [of m] digits.simps [of n])
      from "1.IH" [OF False d] have "m div 10 = n div 10" .
      moreover from c have "m mod 10 = n mod 10" by (intro digit_char_inj) simp_all
      ultimately show ?thesis by (metis div_mult_mod_eq)
    qed
  qed
qed

lemma getCacheKey_inj: "0 \<le> a \<Longrightarrow> 0 \<le> b \<Longrightarrow> getCacheKey a r y = getCacheKey b r y \<Longrightarrow> a = b"
  using digits_inj [of "nat a" "nat b"] by (simp add: getCacheKey_def number_to_string_def)

lemma round_cost_inj:
  "i < 2500000 \<Longrightarrow> j < 2500000 \<Longrightarrow> round_cost i = round_cost j \<Longrightarrow> i = j"
  by (auto simp: round_cost_def split: if_splits)

lemma round_key_fresh:
  assumes "n < 2499999"
  shows "getCacheKey (round_cost (Suc n)) 6 10 \<notin> fst ` set (map round_entry [0..<Suc n])"
proof
  assume "getCacheKey (round_cost (Suc n)) 6 10 \<in> fst ` set (map round_entry [0..<Suc n])"
  then have "\<exists>j\<in>set [0..<Suc n]. getCacheKey (round_cost (Suc n)) 6 10 = fst (round_entry j)"
    unfolding set_map image_image by (rule imageE) blast
  then obtain j where j: "j < Suc n"
    and k: "getCacheKey (round_cost (Suc n)) 6 10 = getCacheKey (round_cost j) 6 10"
    unfolding round_entry_def fst_conv set_upt by (elim bexE) simp
  have "round_cost (Suc n) = round_cost j"
    by (rule getCacheKey_inj [OF _ _ k]) (simp_all add: round_cost_def)
  with round_cost_inj [of "Suc n" j] assms j show False by simp
qed

lemma update_fresh: "k \<notin> fst ` set al \<Longrightarrow> AList.update k v al = al @ [(k, v)]"
  by (induction al) auto

lemma run_append:
  "run s (es @ es') = (case run s es of None \<Rightarrow> None | Some s' \<Rightarrow> run s' es')"
  by (induction es arbitrary: s) simp_all

lemma round_cost_step: "n < 2499999 \<Longrightarrow> round_cost (Suc n) \<noteq> round_cost n"
  by (auto simp: round_cost_def)

lemma step_input_filled:
  assumes n: "n < 2499999"
  shows "step (Input Cost (round_cost (Suc n)) (round_time (Suc n)) (round_time (Suc n))
           (round_time (Suc n))) (filled n) = filling n"
proof -
  have fresh: "map_of (map round_entry [0..<Suc n]) (getCacheKey (round_cost (Suc n)) 6 10) = None"
    using round_key_fresh [OF n] by (simp only: map_of_eq_None_iff) simp
  have gate: "\<not> round_time (Suc n) - (round_time n + 100) < MIN_REQUEST_INTERVAL"
    by (simp add: round_time_def MIN_REQUEST_INTERVAL_def)
  show ?thesis
    using round_cost_step [OF n] fresh gate
    by (simp add: input_change_def set_input_def current_inputs_def invoke_def
        fetchCalculation_def rate_gate_def filled_def filling_def round_inputs_def
        DEBOUNCE_DELAY_def Let_def del: upt_Suc)
      (simp add: round_inputs_def)
qed

lemma outcome_reply:
  "outcome_of (reply (c, r, y) a) =
     Succeeded \<lparr>data_status = JNum 200, data_status_msg = JUndefined, data_current_cost = JNum c,
       data_inflation_rate = JNum r, data_no_years = JNum y, data_future_amount = JNum a\<rparr>"
  by (simp add: reply_def outcome_of_def response_ok_def)

lemma round_result_eq:
  "normalize_payload
     \<lparr>data_status = JNum 200, data_status_msg = JUndefined,
      data_current_cost = JNum (round_cost j), data_inflation_rate = JNum 6,
      data_no_years = JNum 10, data_future_amount = JNum 4476000\<rparr> (round_cost j, 6, 10)
   = round_result j"
  by (simp add: normalize_payload_def js_or_def round_result_def)

lemma store_round:
  assumes n: "Suc n < 100"
  shows "cache_store (getCacheKey (round_cost (Suc n)) 6 10) (round_result (Suc n))
           (round_time (Suc n) + 100) t (map round_entry [0..<Suc n])
         = map round_entry [0..<Suc (Suc n)]"
proof -
  from n have "n < 2499999" by simp
  from update_fresh [OF round_key_fresh [OF this]]
  have "AList.update (getCacheKey (round_cost (Suc n)) 6 10)
          \<lparr>entry_result = round_result (Suc n), timestamp = round_time (Suc n) + 100,
           hitCount = 1\<rparr> (map round_entry [0..<Suc n])
        = map round_entry [0..<Suc (Suc n)]"
    by (simp add: round_entry_def)
  with n show ?thesis by (simp add: cache_store_def MAX_CACHE_SIZE_def del: upt_Suc)
qed

lemma step_respond_filling:
  assumes n: "Suc n < 100"
  shows "step (Respond 0 (reply (round_inputs (Suc n)) 4476000) (round_time (Suc n) + 100)
           (round_time (Suc n) + 100) (round_time (Suc n) + 100) (round_time (Suc n) + 100))
           (filling n) = filled (Suc n)"
  using store_round [OF n, of "round_time (Suc n) + 100"]
  by (simp add: respond_def fetch_complete_def try_block_def finally_block_def on_success_def
      remove_nth_def outcome_reply round_inputs_def round_result_eq filling_def filled_def
      Let_def del: upt_Suc)

lemma run_round:
  assumes n: "Suc n < 100"
  shows "run (filled n) (round_events (Suc n)) = Some (filled (Suc n))"
proof -
  from n have b: "n < 2499999" by simp
  have e1: "enabled (filled n) (Input Cost (round_cost (Suc n)) (round_time (Suc n))
      (round_time (Suc n)) (round_time (Suc n)))"
    by (simp add: filled_def round_time_def)
  have e2: "enabled (filling n) (Respond 0 (reply (round_inputs (Suc n)) 4476000)
      (round_time (Suc n) + 100) (round_time (Suc n) + 100) (round_time (Suc n) + 100)
      (round_time (Suc n) + 100))"
    by (simp add: filling_def)
  show ?thesis
    unfolding round_events_def
    by (simp only: run.simps e1 e2 step_input_filled [OF b] step_respond_filling [OF n] if_True)
qed

lemma run_rounds: "n < 100 \<Longrightarrow> run (filled 0) (rounds n) = Some (filled n)"
proof (induction n)
  case 0
  then show ?case by simp
next
  case (Suc n)
  then have "run (filled 0) (rounds n) = Some (filled n)" by simp
  with run_round [OF Suc.prems] show ?case by (simp add: run_append)
qed

lemma filled_0: "filled 0 = answered_state"
  by (simp add: filled_def answered_state_def round_cost_def round_inputs_def round_time_def
      round_result_def round_entry_def sample_result_def sample_key)

lemma run_full: "run init_state full_events = Some (filling 99)"
proof -
  have a: "run init_state [Mount 5000 5000 5000, Respond 0 sample_ok 5100 5100 5100 5100]
    = Some (filled 0)"
    by (simp only: run_answered filled_0)
  have b: "run (filled 0) (rounds 99) = Some (filled 99)" by (rule run_rounds) simp
  have e: "enabled (filled 99) (Input Cost 100 205000 205000 205000)"
    by (simp add: filled_def round_time_def)
  have c: "step (Input Cost 100 205000 205000 205000) (filled 99) = filling 99"
    using step_input_filled [of 99] by (simp add: round_cost_def round_time_def)
  have d: "run (filled 99) [Input Cost 100 205000 205000 205000] = Some (filling 99)"
    by (simp only: run.simps e c if_True)
  show ?thesis
    unfolding full_events_def by (simp only: run_append a b d option.case)
qed

lemma filling_cache: "cache (filling n) = map round_entry [0..<Suc n]"
  by (simp add: filling_def filled_def del: upt_Suc)

subsection \<open>The claims\<close>

text \<open>
  Claim C1. The specification has every burst of input changes that fall within
  \<open>DEBOUNCE_DELAY\<close> of each other produce exactly one call of \<^verbatim>\<open>fetchCalculation\<close>, made
  with the values of the last change, and has only the call at mount bypass the debounce.
  The component does otherwise: the effect of line 163 lists \<^verbatim>\<open>fetchCalculation\<close> among its
  dependencies, and that function is rebuilt on every input change, so every change calls
  at once, beside re-arming the debounce timeout. In the run below the answer to the mount
  request has arrived and the debounced call of the mount has been served from the cache;
  then \<open>years\<close> goes 10, 11, 12, 13 within 200 ms and the timeout fires 500 ms after the
  last change. The burst makes four calls, not one. The request that leaves is the one for
  11, sent at the first change; the calls for 12 and 13 and the debounced call for 13 fall
  to the guard of line 52. When the answer for 11 arrives at 7800 it is published under
  inputs that say 13, and with no timeout pending no request for 13 follows.
\<close>

theorem burst_calls:
  "map_option calls
     (run init_state [Mount 5000 5000 5000, Respond 0 sample_ok 5100 5100 5100 5100,
        DebounceFire 5500 5500, Input Years 11 7000 7000 7000, Input Years 12 7100 7100 7100,
        Input Years 13 7200 7200 7200, DebounceFire 7700 7700])
     = Some [(2500000, 6, 10), (2500000, 6, 10), (2500000, 6, 11), (2500000, 6, 12),
             (2500000, 6, 13), (2500000, 6, 13)] \<and>
   map_option sent
     (run init_state [Mount 5000 5000 5000, Respond 0 sample_ok 5100 5100 5100 5100,
        DebounceFire 5500 5500, Input Years 11 7000 7000 7000, Input Years 12 7100 7100 7100,
        Input Years 13 7200 7200 7200, DebounceFire 7700 7700])
     = Some [(2500000, 6, 10), (2500000, 6, 11)] \<and>
   map_option current_inputs
     (run init_state [Mount 5000 5000 5000, Respond 0 sample_ok 5100 5100 5100 5100,
        DebounceFire 5500 5500, Input Years 11 7000 7000 7000, Input Years 12 7100 7100 7100,
        Input Years 13 7200 7200 7200, DebounceFire 7700 7700,
        Respond 0 (reply (2500000, 6, 11) 4745746) 7800 7800 7800 7800])
     = Some (2500000, 6, 13) \<and>
   map_option result
     (run init_state [Mount 5000 5000 5000, Respond 0 sample_ok 5100 5100 5100 5100,
        DebounceFire 5500 5500, Input Years 11 7000 7000 7000, Input Years 12 7100 7100 7100,
        Input Years 13 7200 7200 7200, DebounceFire 7700 7700,
        Respond 0 (reply (2500000, 6, 11) 4745746) 7800 7800 7800 7800])
     = Some (Some \<lparr>current_cost = JNum 2500000, inflation_rate = JNum 6, no_years = JNum 11,
                   future_amount = JNum 4745746\<rparr>) \<and>
   map_option sent
     (run init_state [Mount 5000 5000 5000, Respond 0 sample_ok 5100 5100 5100 5100,
        DebounceFire 5500 5500, Input Years 11 7000 7000 7000, Input Years 12 7100 7100 7100,
        Input Years 13 7200 7200 7200, DebounceFire 7700 7700,
        Respond 0 (reply (2500000, 6, 11) 4745746) 7800 7800 7800 7800])
     = Some [(2500000, 6, 10), (2500000, 6, 11)] \<and>
   map_option debounceTimer
     (run init_state [Mount 5000 5000 5000, Respond 0 sample_ok 5100 5100 5100 5100,
        DebounceFire 5500 5500, Input Years 11 7000 7000 7000, Input Years 12 7100 7100 7100,
        Input Years 13 7200 7200 7200, DebounceFire 7700 7700,
        Respond 0 (reply (2500000, 6, 11) 4745746) 7800 7800 7800 7800])
     = Some None \<and>
   map_option retryTimers
     (run init_state [Mount 5000 5000 5000, Respond 0 sample_ok 5100 5100 5100 5100,
        DebounceFire 5500 5500, Input Years 11 7000 7000 7000, Input Years 12 7100 7100 7100,
        Input Years 13 7200 7200 7200, DebounceFire 7700 7700,
        Respond 0 (reply (2500000, 6, 11) 4745746) 7800 7800 7800 7800])
     = Some []"
  by (simp add: run_defs reply_def)

text \<open>
  Claim C2. In every state a run can reach, at most one request awaits its response, and
  one does exactly when \<open>pendingRequest\<close> is set. A call of \<^verbatim>\<open>fetchCalculation\<close> made
  while the flag is set changes nothing at all, so it sends nothing. When a call made with
  the flag clear does send a request, two further calls made before the response leave
  the state as the first call left it: one request has been sent, and one is outstanding.
\<close>

theorem single_flight:
  assumes r: "run init_state es = Some s"
  shows "length (outstanding s) \<le> 1 \<and> (pendingRequest s \<longleftrightarrow> outstanding s \<noteq> []) \<and>
    (pendingRequest s \<longrightarrow> fetchCalculation env c r y tv tg s = s) \<and>
    (\<not> pendingRequest s \<longrightarrow>
       (let s1 = fetchCalculation ea ca ra ya tva tga s;
            s3 = fetchCalculation ec cc rc yc tvc tgc (fetchCalculation eb cb rb yb tvb tgb s1)
        in pendingRequest s1 \<longrightarrow>
             s3 = s1 \<and> sent s3 = sent s @ [(ca, ra, ya)] \<and> length (outstanding s3) = 1))"
proof -
  from run_inv [OF init_inv r] have i: "inv_at (clock s) s" by (simp add: invariant_def)
  then have a: "length (outstanding s) \<le> 1" and b: "pendingRequest s \<longleftrightarrow> outstanding s \<noteq> []"
    by (simp_all add: inv_at_def)
  have c: "pendingRequest s \<longrightarrow> fetchCalculation env c r y tv tg s = s"
    by (simp add: fetchCalculation_def)
  have d: "\<not> pendingRequest s \<longrightarrow>
       (let s1 = fetchCalculation ea ca ra ya tva tga s;
            s3 = fetchCalculation ec cc rc yc tvc tgc (fetchCalculation eb cb rb yb tvb tgb s1)
        in pendingRequest s1 \<longrightarrow>
             s3 = s1 \<and> sent s3 = sent s @ [(ca, ra, ya)] \<and> length (outstanding s3) = 1)"
  proof (intro impI, unfold Let_def, intro impI)
    let ?s1 = "fetchCalculation ea ca ra ya tva tga s"
    assume np: "\<not> pendingRequest s" and p1: "pendingRequest ?s1"
    then have s1: "sent ?s1 = sent s @ [(ca, ra, ya)]"
      "outstanding ?s1 = outstanding s @ [\<lparr>ctx_env = ea, ctx_args = (ca, ra, ya)\<rparr>]"
      by (auto simp: fetchCalculation_def rate_gate_def Let_def split: option.splits if_splits)
    from p1 have "fetchCalculation eb cb rb yb tvb tgb ?s1 = ?s1"
      by (simp add: fetchCalculation_def)
    with p1 have "fetchCalculation ec cc rc yc tvc tgc (fetchCalculation eb cb rb yb tvb tgb ?s1) = ?s1"
      by (simp add: fetchCalculation_def)
    with s1 b np
    show "fetchCalculation ec cc rc yc tvc tgc (fetchCalculation eb cb rb yb tvb tgb ?s1) = ?s1 \<and>
      sent (fetchCalculation ec cc rc yc tvc tgc (fetchCalculation eb cb rb yb tvb tgb ?s1)) =
        sent s @ [(ca, ra, ya)] \<and>
      length (outstanding (fetchCalculation ec cc rc yc tvc tgc
        (fetchCalculation eb cb rb yb tvb tgb ?s1))) = 1"
      by simp
  qed
  from a b c d show ?thesis by blast
qed

theorem single_flight_witness:
  "run init_state [Mount 5000 5000 5000] = Some mounted_state \<and> pendingRequest mounted_state \<and>
   length (outstanding mounted_state) \<le> 1 \<and>
   fetchCalculation (2500000, 6, 11) 2500000 6 11 5100 5100 mounted_state = mounted_state \<and>
   run init_state [] = Some init_state \<and> \<not> pendingRequest init_state \<and>
   pendingRequest (fetchCalculation (2500000, 6, 10) 2500000 6 10 5000 5000 init_state) \<and>
   sent (fetchCalculation (2500000, 6, 12) 2500000 6 12 5200 5200
          (fetchCalculation (2500000, 6, 11) 2500000 6 11 5100 5100
            (fetchCalculation (2500000, 6, 10) 2500000 6 10 5000 5000 init_state)))
     = [(2500000, 6, 10)]"
proof -
  have r: "run init_state [] = Some init_state" by simp
  have p: "pendingRequest (fetchCalculation (2500000, 6, 10) 2500000 6 10 5000 5000 init_state)"
    by (simp add: run_defs)
  have n: "\<not> pendingRequest init_state" by (simp add: init_state_def)
  have s: "sent init_state = []" by (simp add: init_state_def)
  have m: "pendingRequest mounted_state" by (simp add: mounted_state_def)
  from single_flight [OF r, where ea = "(2500000, 6, 10)" and ca = 2500000 and ra = 6 and ya = 10
      and tva = 5000 and tga = 5000 and eb = "(2500000, 6, 11)" and cb = 2500000 and rb = 6
      and yb = 11 and tvb = 5100 and tgb = 5100 and ec = "(2500000, 6, 12)" and cc = 2500000
      and rc = 6 and yc = 12 and tvc = 5200 and tgc = 5200] n p
  have "sent (fetchCalculation (2500000, 6, 12) 2500000 6 12 5200 5200
          (fetchCalculation (2500000, 6, 11) 2500000 6 11 5100 5100
            (fetchCalculation (2500000, 6, 10) 2500000 6 10 5000 5000 init_state)))
     = sent init_state @ [(2500000, 6, 10)]"
    unfolding Let_def by blast
  with s have a: "sent (fetchCalculation (2500000, 6, 12) 2500000 6 12 5200 5200
          (fetchCalculation (2500000, 6, 11) 2500000 6 11 5100 5100
            (fetchCalculation (2500000, 6, 10) 2500000 6 10 5000 5000 init_state)))
     = [(2500000, 6, 10)]"
    by simp
  from single_flight [OF run_mount, where env = "(2500000, 6, 11)" and c = 2500000 and r = 6
      and y = 11 and tv = 5100 and tg = 5100] m
  have b: "length (outstanding mounted_state) \<le> 1 \<and>
    fetchCalculation (2500000, 6, 11) 2500000 6 11 5100 5100 mounted_state = mounted_state"
    by simp
  from a b r n p m run_mount show ?thesis by simp
qed

text \<open>
  Claim C3. In every state a run can reach the cache holds at most \<open>MAX_CACHE_SIZE\<close>
  entries. When a successful response is stored in such a state, the cache afterwards is
  the map with the new entry set, as long as that map is within the bound; when setting
  the entry takes the map past the bound, exactly one entry is deleted from it, an entry
  other than the new one whose \<open>timestamp\<close> is least among all entries, and the cache is
  back at \<open>MAX_CACHE_SIZE\<close>. The clock of a run does not go backwards.
\<close>

theorem cache_bounded:
  assumes r: "run init_state es = Some s"
  shows "length (cache s) \<le> MAX_CACHE_SIZE \<and>
    (enabled s (Respond i resp ts tc td tf) \<and> outcome_of resp = Succeeded d \<longrightarrow>
       (let args = ctx_args (outstanding s ! i);
            key = getCacheKey (fst args) (fst (snd args)) (snd (snd args));
            c1 = AList.update key
                   \<lparr>entry_result = normalize_payload d args, timestamp = ts, hitCount = 1\<rparr> (cache s);
            c2 = cache (step (Respond i resp ts tc td tf) s)
        in (length c1 \<le> MAX_CACHE_SIZE \<longrightarrow> c2 = c1) \<and>
           (MAX_CACHE_SIZE < length c1 \<longrightarrow>
              (\<exists>k e. (k, e) \<in> set c1 \<and> k \<noteq> key \<and>
                 (\<forall>x\<in>set c1. timestamp e \<le> timestamp (snd x)) \<and>
                 c2 = AList.delete k c1 \<and> length c2 = length c1 - 1 \<and>
                 length c2 = MAX_CACHE_SIZE))))"
proof -
  from run_inv [OF init_inv r] have i: "inv_at (clock s) s" by (simp add: invariant_def)
  then have bound: "length (cache s) \<le> MAX_CACHE_SIZE" by (simp add: inv_at_def)
  have "enabled s (Respond i resp ts tc td tf) \<and> outcome_of resp = Succeeded d \<longrightarrow>
       (let args = ctx_args (outstanding s ! i);
            key = getCacheKey (fst args) (fst (snd args)) (snd (snd args));
            c1 = AList.update key
                   \<lparr>entry_result = normalize_payload d args, timestamp = ts, hitCount = 1\<rparr> (cache s);
            c2 = cache (step (Respond i resp ts tc td tf) s)
        in (length c1 \<le> MAX_CACHE_SIZE \<longrightarrow> c2 = c1) \<and>
           (MAX_CACHE_SIZE < length c1 \<longrightarrow>
              (\<exists>k e. (k, e) \<in> set c1 \<and> k \<noteq> key \<and>
                 (\<forall>x\<in>set c1. timestamp e \<le> timestamp (snd x)) \<and>
                 c2 = AList.delete k c1 \<and> length c2 = length c1 - 1 \<and>
                 length c2 = MAX_CACHE_SIZE)))"
  proof (intro impI, elim conjE)
    assume en: "enabled s (Respond i resp ts tc td tf)" and ok: "outcome_of resp = Succeeded d"
    let ?args = "ctx_args (outstanding s ! i)"
    let ?key = "getCacheKey (fst ?args) (fst (snd ?args)) (snd (snd ?args))"
    let ?r = "normalize_payload d ?args"
    let ?c1 = "AList.update ?key \<lparr>entry_result = ?r, timestamp = ts, hitCount = 1\<rparr> (cache s)"
    from en have n: "i < length (outstanding s)" and le: "clock s \<le> ts" "ts \<le> tc" by auto
    from i n have "pendingRequest s" by (auto simp: inv_at_def)
    with i le have cok: "cache_ok (cache s) ts"
      by (fastforce simp: inv_at_def cache_ok_def MIN_REQUEST_INTERVAL_def)
    have c2: "cache (step (Respond i resp ts tc td tf) s) = cache_store ?key ?r ts tc (cache s)"
      using n ok by (rule respond_cache)
    have small: "length ?c1 \<le> MAX_CACHE_SIZE \<longrightarrow> cache_store ?key ?r ts tc (cache s) = ?c1"
      by (simp add: cache_store_small)
    have big: "MAX_CACHE_SIZE < length ?c1 \<longrightarrow>
       (\<exists>k e. (k, e) \<in> set ?c1 \<and> k \<noteq> ?key \<and>
          (\<forall>x\<in>set ?c1. timestamp e \<le> timestamp (snd x)) \<and>
          cache_store ?key ?r ts tc (cache s) = AList.delete k ?c1 \<and>
          length (cache_store ?key ?r ts tc (cache s)) = length ?c1 - 1 \<and>
          length (cache_store ?key ?r ts tc (cache s)) = MAX_CACHE_SIZE)"
    proof
      assume b: "MAX_CACHE_SIZE < length ?c1"
      from cache_store_evicts [OF cok le(2) refl b] obtain k e where
        ke: "(k, e) \<in> set ?c1" "k \<noteq> ?key" "\<forall>x\<in>set ?c1. timestamp e \<le> timestamp (snd x)"
        "cache_store ?key ?r ts tc (cache s) = AList.delete k ?c1"
        "length (cache_store ?key ?r ts tc (cache s)) = MAX_CACHE_SIZE"
        by blast
      from b bound have "length ?c1 = Suc MAX_CACHE_SIZE"
        by (auto simp: length_update split: if_splits)
      with ke show "\<exists>k e. (k, e) \<in> set ?c1 \<and> k \<noteq> ?key \<and>
          (\<forall>x\<in>set ?c1. timestamp e \<le> timestamp (snd x)) \<and>
          cache_store ?key ?r ts tc (cache s) = AList.delete k ?c1 \<and>
          length (cache_store ?key ?r ts tc (cache s)) = length ?c1 - 1 \<and>
          length (cache_store ?key ?r ts tc (cache s)) = MAX_CACHE_SIZE"
        by (intro exI [of _ k] exI [of _ e]) simp
    qed
    from small big show "let args = ctx_args (outstanding s ! i);
            key = getCacheKey (fst args) (fst (snd args)) (snd (snd args));
            c1 = AList.update key
                   \<lparr>entry_result = normalize_payload d args, timestamp = ts, hitCount = 1\<rparr> (cache s);
            c2 = cache (step (Respond i resp ts tc td tf) s)
        in (length c1 \<le> MAX_CACHE_SIZE \<longrightarrow> c2 = c1) \<and>
           (MAX_CACHE_SIZE < length c1 \<longrightarrow>
              (\<exists>k e. (k, e) \<in> set c1 \<and> k \<noteq> key \<and>
                 (\<forall>x\<in>set c1. timestamp e \<le> timestamp (snd x)) \<and>
                 c2 = AList.delete k c1 \<and> length c2 = length c1 - 1 \<and>
                 length c2 = MAX_CACHE_SIZE))"
      unfolding Let_def c2 by blast
  qed
  with bound show ?thesis by blast
qed

text \<open>
  The first store, into an empty cache; and the store of round 100, into a cache of 100
  entries, which evicts.
\<close>

theorem cache_bounded_witness:
  "run init_state [Mount 5000 5000 5000] = Some mounted_state \<and>
   enabled mounted_state (Respond 0 sample_ok 5100 5100 5100 5100) \<and>
   outcome_of sample_ok = Succeeded sample_payload \<and>
   length (cache mounted_state) \<le> MAX_CACHE_SIZE \<and>
   cache (step (Respond 0 sample_ok 5100 5100 5100 5100) mounted_state) =
     [(''2500000-6-10'', \<lparr>entry_result = sample_result, timestamp = 5100, hitCount = 1\<rparr>)] \<and>
   run init_state full_events = Some (filling 99) \<and>
   enabled (filling 99) (Respond 0 (reply (100, 6, 10) 4476000) 205100 205100 205100 205100) \<and>
   length (cache (filling 99)) = MAX_CACHE_SIZE \<and>
   getCacheKey 100 6 10 \<notin> fst ` set (cache (filling 99)) \<and>
   length (cache (step (Respond 0 (reply (100, 6, 10) 4476000) 205100 205100 205100 205100)
     (filling 99))) = MAX_CACHE_SIZE"
proof -
  let ?r = "reply (100, 6, 10) 4476000"
  let ?p = "\<lparr>data_status = JNum 200, data_status_msg = JUndefined, data_current_cost = JNum 100,
       data_inflation_rate = JNum 6, data_no_years = JNum 10, data_future_amount = JNum 4476000\<rparr>"
  let ?ev = "Respond 0 ?r 205100 205100 205100 205100"
  have en: "enabled mounted_state (Respond 0 sample_ok 5100 5100 5100 5100)"
    by (simp add: mounted_state_def)
  have ok: "outcome_of sample_ok = Succeeded sample_payload"
    by (simp add: run_defs)
  have c: "cache (step (Respond 0 sample_ok 5100 5100 5100 5100) mounted_state) =
     [(''2500000-6-10'', \<lparr>entry_result = sample_result, timestamp = 5100, hitCount = 1\<rparr>)]"
    unfolding step_answered by (simp add: answered_state_def)
  from cache_bounded [OF run_mount, of 0 sample_ok 5100 5100 5100 5100 sample_payload]
  have small: "length (cache mounted_state) \<le> MAX_CACHE_SIZE" by blast
  have len: "length (cache (filling 99)) = MAX_CACHE_SIZE"
    by (simp add: filling_cache MAX_CACHE_SIZE_def del: upt_Suc)
  have args: "ctx_args (outstanding (filling 99) ! 0) = (100, 6, 10)"
    by (simp add: filling_def round_inputs_def round_cost_def)
  have en2: "enabled (filling 99) ?ev"
    by (simp add: filling_def filled_def round_time_def)
  have ok2: "outcome_of ?r = Succeeded ?p" by (rule outcome_reply)
  have fresh: "getCacheKey 100 6 10 \<notin> fst ` set (cache (filling 99))"
    using round_key_fresh [of 99] by (simp add: filling_cache round_cost_def del: upt_Suc)
  with len have big: "MAX_CACHE_SIZE <
    length (AList.update (getCacheKey 100 6 10)
      \<lparr>entry_result = normalize_payload ?p (100, 6, 10), timestamp = 205100, hitCount = 1\<rparr>
      (cache (filling 99)))"
    by (simp add: length_update)
  from cache_bounded [OF run_full, of 0 ?r 205100 205100 205100 205100 ?p] en2 ok2
  have "let args = ctx_args (outstanding (filling 99) ! 0);
            key = getCacheKey (fst args) (fst (snd args)) (snd (snd args));
            c1 = AList.update key
                   \<lparr>entry_result = normalize_payload ?p args, timestamp = 205100, hitCount = 1\<rparr>
                   (cache (filling 99));
            c2 = cache (step ?ev (filling 99))
        in (length c1 \<le> MAX_CACHE_SIZE \<longrightarrow> c2 = c1) \<and>
           (MAX_CACHE_SIZE < length c1 \<longrightarrow>
              (\<exists>k e. (k, e) \<in> set c1 \<and> k \<noteq> key \<and>
                 (\<forall>x\<in>set c1. timestamp e \<le> timestamp (snd x)) \<and>
                 c2 = AList.delete k c1 \<and> length c2 = length c1 - 1 \<and>
                 length c2 = MAX_CACHE_SIZE))"
    by blast
  with big have after: "length (cache (step ?ev (filling 99))) = MAX_CACHE_SIZE"
    unfolding Let_def args fst_conv snd_conv by blast
  from run_mount en ok small c run_full en2 len fresh after show ?thesis by blast
qed




text \<open>
  Claim C5, as amended. \<open>lastRequestTime\<close> is never written when a request is sent, nor by
  any call of \<^verbatim>\<open>fetchCalculation\<close> up to its suspension. Of all events only the response
  to an outstanding request can change it, and it does exactly when the response is a
  success: \<open>lastRequestTime\<close> is then the instant read on line 136, after the result has
  been stored and published. A request that fails, rate-limited or not, leaves it as it
  was.
\<close>

theorem last_request_time_rule:
  "lastRequestTime (fetchCalculation env c r y tv tg s) = lastRequestTime s \<and>
   lastRequestTime (step e s) =
     (case e of
        Respond i resp ts tc td tf \<Rightarrow>
          if i < length (outstanding s)
          then (case outcome_of resp of Succeeded d \<Rightarrow> td | _ \<Rightarrow> lastRequestTime s)
          else lastRequestTime s
      | _ \<Rightarrow> lastRequestTime s)"
proof -
  have "lastRequestTime (step e s) =
     (case e of
        Respond i resp ts tc td tf \<Rightarrow>
          if i < length (outstanding s)
          then (case outcome_of resp of Succeeded d \<Rightarrow> td | _ \<Rightarrow> lastRequestTime s)
          else lastRequestTime s
      | _ \<Rightarrow> lastRequestTime s)"
  proof (cases e)
    case (Mount tv tg te)
    then show ?thesis by (simp add: mount_effects_def Let_def invoke_last)
  next
    case (Input f v tv tg te)
    then show ?thesis
      by (cases f) (simp_all add: input_change_def set_input_def Let_def invoke_last)
  next
    case (DebounceFire tv tg)
    then show ?thesis
      by (simp add: debounce_fire_def invoke_last split: option.splits)
  next
    case (RetryFire n tv tg)
    then show ?thesis by (simp add: retry_fire_def invoke_last)
  next
    case (Respond n resp ts tc td tf)
    then show ?thesis by (simp add: respond_fields split: outcome.splits)
  qed
  then show ?thesis by (simp add: fetchCalculation_last)
qed

text \<open>The first request, sent at 5000 from the initial state: failing, rate-limited, succeeding.\<close>

theorem last_request_time_rule_witness:
  "lastRequestTime (fetchCalculation (2500000, 6, 10) 2500000 6 10 5000 5000 init_state) = 0 \<and>
   pendingRequest (fetchCalculation (2500000, 6, 10) 2500000 6 10 5000 5000 init_state) \<and>
   lastRequestTime (step (Respond 0 (NetworkError ''Failed to fetch'') 5100 5100 5100 5100)
     mounted_state) = 0 \<and>
   lastRequestTime (step (Respond 0 (HttpResponse 429 JsonNull) 5100 5100 5100 5100)
     mounted_state) = 0 \<and>
   lastRequestTime (step (Respond 0 sample_ok 5100 5101 5102 5103) mounted_state) = 5102"
proof -
  have p: "pendingRequest (fetchCalculation (2500000, 6, 10) 2500000 6 10 5000 5000 init_state)"
    by (simp add: run_defs)
  have o: "outcome_of (NetworkError ''Failed to fetch'') = Failed ''Failed to fetch''"
    "outcome_of (HttpResponse 429 JsonNull) = RateLimited"
    "outcome_of sample_ok = Succeeded sample_payload"
    by (simp_all add: run_defs)
  have l: "lastRequestTime init_state = 0" "lastRequestTime mounted_state = 0"
    "length (outstanding mounted_state) = 1"
    by (simp_all add: init_state_def mounted_state_def)
  from last_request_time_rule [of "(2500000, 6, 10)" 2500000 6 10 5000 5000 init_state
      "Respond 0 (NetworkError ''Failed to fetch'') 5100 5100 5100 5100"] l
  have a: "lastRequestTime (fetchCalculation (2500000, 6, 10) 2500000 6 10 5000 5000 init_state)
    = 0" by simp
  from last_request_time_rule [of "(2500000, 6, 10)" 2500000 6 10 5000 5000 mounted_state
      "Respond 0 (NetworkError ''Failed to fetch'') 5100 5100 5100 5100"] l o
  have b: "lastRequestTime (step (Respond 0 (NetworkError ''Failed to fetch'') 5100 5100 5100 5100)
     mounted_state) = 0" by simp
  from last_request_time_rule [of "(2500000, 6, 10)" 2500000 6 10 5000 5000 mounted_state
      "Respond 0 (HttpResponse 429 JsonNull) 5100 5100 5100 5100"] l o
  have c: "lastRequestTime (step (Respond 0 (HttpResponse 429 JsonNull) 5100 5100 5100 5100)
     mounted_state) = 0" by simp
  from last_request_time_rule [of "(2500000, 6, 10)" 2500000 6 10 5000 5000 mounted_state
      "Respond 0 sample_ok 5100 5101 5102 5103"] l o
  have d: "lastRequestTime (step (Respond 0 sample_ok 5100 5101 5102 5103) mounted_state) = 5102"
    by simp
  from a b c d p show ?thesis by simp
qed

text \<open>
  The claim as the specification words it, with \<open>lastRequestTime\<close> holding the completion
  time of a failed request, fails: the first request fails at 5100 and
  \<open>lastRequestTime\<close> is still 0.
\<close>

theorem failure_leaves_last_request_time:
  "outcome_of (NetworkError ''Failed to fetch'') = Failed ''Failed to fetch'' \<and>
   map_option lastRequestTime
     (run init_state [Mount 5000 5000 5000,
        Respond 0 (NetworkError ''Failed to fetch'') 5100 5100 5100 5100]) = Some 0 \<and>
   map_option lastRequestTime
     (run init_state [Mount 5000 5000 5000,
        Respond 0 (NetworkError ''Failed to fetch'') 5100 5100 5100 5100]) \<noteq> Some 5100"
  by (simp add: run_defs)

text \<open>
  Claim C6. The specification has every response that signals rate-limiting, by HTTP
  status 429 or by a payload status of 429, publish the rate-limit message, with the cache
  and \<open>lastRequestTime\<close> unchanged. The component parses the body (line 93) before it
  looks at the status (line 95): a response of status 429 whose body is not JSON raises in
  \<^verbatim>\<open>response.json()\<close>, and the \<^verbatim>\<open>catch\<close> publishes the parser's message instead of the
  rate-limit message.
\<close>

theorem unparsable_429:
  "outcome_of (HttpResponse 429 (Unparsable ''Unexpected end of JSON input''))
     = Failed ''Unexpected end of JSON input'' \<and>
   map_option error
     (run init_state [Mount 5000 5000 5000,
        Respond 0 (HttpResponse 429 (Unparsable ''Unexpected end of JSON input''))
          5100 5100 5100 5100])
     = Some (Some ''Unexpected end of JSON input'') \<and>
   rate_limit_message \<noteq> ''Unexpected end of JSON input''"
  by (simp add: run_defs rate_limit_message_def)

text \<open>So the error shown for this response of status 429 is not the rate-limit message.\<close>

theorem unparsable_429_witness:
  "map_option error
     (run init_state [Mount 5000 5000 5000,
        Respond 0 (HttpResponse 429 (Unparsable ''Unexpected end of JSON input''))
          5100 5100 5100 5100])
     \<noteq> Some (Some rate_limit_message)"
proof -
  from unparsable_429 have e: "map_option error
     (run init_state [Mount 5000 5000 5000,
        Respond 0 (HttpResponse 429 (Unparsable ''Unexpected end of JSON input''))
          5100 5100 5100 5100])
     = Some (Some ''Unexpected end of JSON input'')"
    and n: "rate_limit_message \<noteq> ''Unexpected end of JSON input''"
    by blast+
  from n show ?thesis unfolding e by simp
qed

text \<open>
  Claim C7. Let no request be on its way and let the cache hold an entry under the key of
  the call. The entry is valid exactly while \<open>now - timestamp\<close> is below ten minutes. If
  it is valid, the call increments the entry's \<open>hitCount\<close>, publishes the entry's result,
  clears the error and the loading flag, and does nothing else: no request is sent, and
  \<open>lastRequestTime\<close>, \<open>requestQueue\<close> and \<open>pendingRequest\<close> stay as they were. If it is
  expired, the call publishes nothing from it and the entry stays in the cache as it is.
\<close>

theorem cache_hit:
  assumes np: "\<not> pendingRequest s"
    and hit: "map_of (cache s) (getCacheKey c r y) = Some cached"
  shows "(isCacheValid tv (timestamp cached) \<longleftrightarrow> tv - timestamp cached < 10 * 60 * 1000) \<and>
    (isCacheValid tv (timestamp cached) \<longrightarrow>
       (let s' = fetchCalculation env c r y tv tg s in
          s' = s\<lparr>cache := AList.update (getCacheKey c r y)
                             (cached\<lparr>hitCount := hitCount cached + 1\<rparr>) (cache s),
                 result := Some (entry_result cached), error := None, loading := False\<rparr> \<and>
          map_of (cache s') (getCacheKey c r y) = Some (cached\<lparr>hitCount := hitCount cached + 1\<rparr>) \<and>
          result s' = Some (entry_result cached) \<and> error s' = None \<and>
          sent s' = sent s \<and> outstanding s' = outstanding s \<and>
          pendingRequest s' = pendingRequest s \<and>
          lastRequestTime s' = lastRequestTime s \<and> requestQueue s' = requestQueue s)) \<and>
    (\<not> isCacheValid tv (timestamp cached) \<longrightarrow>
       (let s' = fetchCalculation env c r y tv tg s in
          result s' = result s \<and> cache s' = cache s \<and>
          map_of (cache s') (getCacheKey c r y) = Some cached))"
  using np hit
  by (simp add: fetchCalculation_def rate_gate_def isCacheValid_def CACHE_DURATION_def Let_def
      update_conv')

text \<open>The answered sample state at 5500 (a hit) and ten minutes after the store (expired).\<close>

theorem cache_hit_witness:
  "run init_state [Mount 5000 5000 5000, Respond 0 sample_ok 5100 5100 5100 5100]
     = Some answered_state \<and>
   \<not> pendingRequest answered_state \<and>
   map_of (cache answered_state) (getCacheKey 2500000 6 10) =
     Some \<lparr>entry_result = sample_result, timestamp = 5100, hitCount = 1\<rparr> \<and>
   isCacheValid 5500 5100 \<and>
   result (fetchCalculation (2500000, 6, 10) 2500000 6 10 5500 5500 answered_state) =
     Some sample_result \<and>
   map_of (cache (fetchCalculation (2500000, 6, 10) 2500000 6 10 5500 5500 answered_state))
       (getCacheKey 2500000 6 10) =
     Some \<lparr>entry_result = sample_result, timestamp = 5100, hitCount = 2\<rparr> \<and>
   sent (fetchCalculation (2500000, 6, 10) 2500000 6 10 5500 5500 answered_state) =
     [(2500000, 6, 10)] \<and>
   \<not> isCacheValid 605100 5100 \<and>
   cache (fetchCalculation (2500000, 6, 10) 2500000 6 10 605100 605100 answered_state) =
     cache answered_state"
proof -
  have np: "\<not> pendingRequest answered_state" by (simp add: answered_state_def)
  have hit: "map_of (cache answered_state) (getCacheKey 2500000 6 10) =
     Some \<lparr>entry_result = sample_result, timestamp = 5100, hitCount = 1\<rparr>"
    by (simp add: answered_state_def sample_key)
  have v: "isCacheValid 5500 5100" "\<not> isCacheValid 605100 5100"
    by (simp_all add: isCacheValid_def CACHE_DURATION_def)
  have s: "sent answered_state = [(2500000, 6, 10)]" by (simp add: answered_state_def)
  from cache_hit [OF np hit, of 5500 "(2500000, 6, 10)" 5500] v(1) s
  have a: "result (fetchCalculation (2500000, 6, 10) 2500000 6 10 5500 5500 answered_state) =
      Some sample_result \<and>
    map_of (cache (fetchCalculation (2500000, 6, 10) 2500000 6 10 5500 5500 answered_state))
        (getCacheKey 2500000 6 10) =
      Some \<lparr>entry_result = sample_result, timestamp = 5100, hitCount = 2\<rparr> \<and>
    sent (fetchCalculation (2500000, 6, 10) 2500000 6 10 5500 5500 answered_state) =
      [(2500000, 6, 10)]"
    by (simp add: Let_def update_conv' answered_state_def sample_key)
  from cache_hit [OF np hit, of 605100 "(2500000, 6, 10)" 605100] v(2)
  have b: "cache (fetchCalculation (2500000, 6, 10) 2500000 6 10 605100 605100 answered_state) =
     cache answered_state"
    by (simp add: Let_def)
  from np hit v a b run_answered show ?thesis by simp
qed

text \<open>
  Claim C8, as amended. When a successful response arrives for the outstanding request of
  a reachable state, the result takes each of \<^verbatim>\<open>current_cost\<close>, \<^verbatim>\<open>inflation_rate\<close>,
  \<^verbatim>\<open>no_years\<close> from the payload when the payload's value is truthy and from the request
  otherwise, and \<^verbatim>\<open>future_amount\<close> from the payload when truthy and \<open>0\<close> otherwise; a value
  is not truthy when it is missing, \<^verbatim>\<open>null\<close>, \<^verbatim>\<open>false\<close>, \<open>0\<close> or the empty string. The
  result is the current result, the cache holds it under the key of the request with the
  instant of the store and a hit count of 1, no error is shown, and \<open>lastRequestTime\<close> is
  the instant read on line 136.
\<close>

theorem success_publishes:
  assumes r: "run init_state es = Some s"
    and en: "enabled s (Respond i resp ts tc td tf)"
    and ok: "outcome_of resp = Succeeded d"
  shows "let args = ctx_args (outstanding s ! i);
             res = normalize_payload d args;
             s' = step (Respond i resp ts tc td tf) s
         in current_cost res =
              (if truthy (data_current_cost d) then data_current_cost d else JNum (fst args)) \<and>
            inflation_rate res =
              (if truthy (data_inflation_rate d) then data_inflation_rate d
               else JNum (fst (snd args))) \<and>
            no_years res =
              (if truthy (data_no_years d) then data_no_years d else JNum (snd (snd args))) \<and>
            future_amount res =
              (if truthy (data_future_amount d) then data_future_amount d else JNum 0) \<and>
            (truthy v \<longleftrightarrow>
               v \<noteq> JUndefined \<and> v \<noteq> JNull \<and> v \<noteq> JBool False \<and> v \<noteq> JNum 0 \<and> v \<noteq> JStr []) \<and>
            result s' = Some res \<and>
            map_of (cache s') (getCacheKey (fst args) (fst (snd args)) (snd (snd args))) =
              Some \<lparr>entry_result = res, timestamp = ts, hitCount = 1\<rparr> \<and>
            error s' = None \<and> loading s' = False \<and> lastRequestTime s' = td"
proof -
  let ?args = "ctx_args (outstanding s ! i)"
  let ?key = "getCacheKey (fst ?args) (fst (snd ?args)) (snd (snd ?args))"
  let ?res = "normalize_payload d ?args"
  from run_inv [OF init_inv r] have i: "inv_at (clock s) s" by (simp add: invariant_def)
  from en have n: "i < length (outstanding s)" and le: "clock s \<le> ts" "ts \<le> tc" by auto
  from i n have p: "pendingRequest s" by (auto simp: inv_at_def)
  with i have e: "error s = None" by (simp add: inv_at_def)
  from i p le have cok: "cache_ok (cache s) ts"
    by (fastforce simp: inv_at_def cache_ok_def MIN_REQUEST_INTERVAL_def)
  have norm: "current_cost ?res =
      (if truthy (data_current_cost d) then data_current_cost d else JNum (fst ?args))"
    "inflation_rate ?res =
      (if truthy (data_inflation_rate d) then data_inflation_rate d else JNum (fst (snd ?args)))"
    "no_years ?res =
      (if truthy (data_no_years d) then data_no_years d else JNum (snd (snd ?args)))"
    "future_amount ?res =
      (if truthy (data_future_amount d) then data_future_amount d else JNum 0)"
    by (simp_all add: normalize_payload_def js_or_def split: prod.splits)
  have c: "map_of (cache (step (Respond i resp ts tc td tf) s)) ?key =
      Some \<lparr>entry_result = ?res, timestamp = ts, hitCount = 1\<rparr>"
    using cache_store_ok [OF cok le(2), of ?key ?res] respond_cache [OF n ok] by simp
  have rest: "result (step (Respond i resp ts tc td tf) s) = Some ?res"
    "error (step (Respond i resp ts tc td tf) s) = None"
    "loading (step (Respond i resp ts tc td tf) s) = False"
    "lastRequestTime (step (Respond i resp ts tc td tf) s) = td"
    using n ok e by (simp_all add: respond_fields)
  from norm c rest truthy_iff [of v] show ?thesis unfolding Let_def by blast
qed

theorem success_publishes_witness:
  "run init_state [Mount 5000 5000 5000] = Some mounted_state \<and>
   enabled mounted_state (Respond 0 sample_ok 5100 5101 5102 5103) \<and>
   outcome_of sample_ok = Succeeded sample_payload \<and>
   normalize_payload sample_payload (2500000, 6, 10) = sample_result \<and>
   result (step (Respond 0 sample_ok 5100 5101 5102 5103) mounted_state) = Some sample_result \<and>
   map_of (cache (step (Respond 0 sample_ok 5100 5101 5102 5103) mounted_state))
       (getCacheKey 2500000 6 10) =
     Some \<lparr>entry_result = sample_result, timestamp = 5100, hitCount = 1\<rparr> \<and>
   error (step (Respond 0 sample_ok 5100 5101 5102 5103) mounted_state) = None \<and>
   lastRequestTime (step (Respond 0 sample_ok 5100 5101 5102 5103) mounted_state) = 5102"
proof -
  have en: "enabled mounted_state (Respond 0 sample_ok 5100 5101 5102 5103)"
    by (simp add: mounted_state_def)
  have ok: "outcome_of sample_ok = Succeeded sample_payload" by (simp add: run_defs)
  have a: "ctx_args (outstanding mounted_state ! 0) = (2500000, 6, 10)"
    by (simp add: mounted_state_def)
  have nm: "normalize_payload sample_payload (2500000, 6, 10) = sample_result"
    by (simp add: normalize_payload_def js_or_def sample_payload_def sample_result_def)
  from success_publishes [OF run_mount en ok]
  have "result (step (Respond 0 sample_ok 5100 5101 5102 5103) mounted_state) =
      Some (normalize_payload sample_payload (ctx_args (outstanding mounted_state ! 0))) \<and>
    map_of (cache (step (Respond 0 sample_ok 5100 5101 5102 5103) mounted_state))
       (getCacheKey (fst (ctx_args (outstanding mounted_state ! 0)))
          (fst (snd (ctx_args (outstanding mounted_state ! 0))))
          (snd (snd (ctx_args (outstanding mounted_state ! 0))))) =
      Some \<lparr>entry_result = normalize_payload sample_payload (ctx_args (outstanding mounted_state ! 0)),
             timestamp = 5100, hitCount = 1\<rparr> \<and>
    error (step (Respond 0 sample_ok 5100 5101 5102 5103) mounted_state) = None \<and>
    lastRequestTime (step (Respond 0 sample_ok 5100 5101 5102 5103) mounted_state) = 5102"
    unfolding Let_def by blast
  with a nm en ok run_mount show ?thesis by simp
qed

text \<open>
  The claim as the specification words it, with the fallback taken exactly when the
  service omits the field, fails: the service echoes a cost of 0 and the result holds the
  requested cost.
\<close>

theorem echoed_zero_falls_back:
  "data_current_cost
     \<lparr>data_status = JNum 200, data_status_msg = JUndefined, data_current_cost = JNum 0,
      data_inflation_rate = JNum 6, data_no_years = JNum 10, data_future_amount = JNum 4476000\<rparr>
     = JNum 0 \<and>
   outcome_of (HttpResponse 200 (JsonObject
     \<lparr>data_status = JNum 200, data_status_msg = JUndefined, data_current_cost = JNum 0,
      data_inflation_rate = JNum 6, data_no_years = JNum 10, data_future_amount = JNum 4476000\<rparr>))
     = Succeeded
     \<lparr>data_status = JNum 200, data_status_msg = JUndefined, data_current_cost = JNum 0,
      data_inflation_rate = JNum 6, data_no_years = JNum 10, data_future_amount = JNum 4476000\<rparr> \<and>
   map_option result
     (run init_state [Mount 5000 5000 5000,
        Respond 0 (HttpResponse 200 (JsonObject
          \<lparr>data_status = JNum 200, data_status_msg = JUndefined, data_current_cost = JNum 0,
           data_inflation_rate = JNum 6, data_no_years = JNum 10,
           data_future_amount = JNum 4476000\<rparr>)) 5100 5100 5100 5100])
     = Some (Some \<lparr>current_cost = JNum 2500000, inflation_rate = JNum 6, no_years = JNum 10,
                   future_amount = JNum 4476000\<rparr>)"
  by (simp add: run_defs)

text \<open>
  Claim C9. The specification has a retry call \<^verbatim>\<open>fetchCalculation\<close> with the inputs as they
  are when the timeout fires. The callback of line 149 passes \<^verbatim>\<open>currentCost\<close>,
  \<^verbatim>\<open>inflationRate\<close> and \<^verbatim>\<open>years\<close> of the render that built the completing function, and
  the timeout is not re-armed when an input changes, so it calls with the inputs of that
  render. In the run below \<open>years\<close> becomes 12 at 6150, while the request for 11 is on its
  way; the retry set at 6200 fires at 7200 and calls with 11, the inputs being
  (2500000, 6, 12) before and after. The call publishes the cached result for 11; a call
  with 12 would have passed the gate, and no request for 12 is ever sent.
\<close>

theorem retry_calls_with_captured_inputs:
  "map_option current_inputs
     (run init_state [Mount 5000 5000 5000, Respond 0 sample_ok 5100 5100 5100 5100,
        DebounceFire 5500 5500, Input Years 11 5600 5600 5600, DebounceFire 6100 6100,
        Input Years 12 6150 6150 6150,
        Respond 0 (reply (2500000, 6, 11) 4745746) 6200 6200 6200 6200,
        DebounceFire 6650 6650])
     = Some (2500000, 6, 12) \<and>
   map_option retryTimers
     (run init_state [Mount 5000 5000 5000, Respond 0 sample_ok 5100 5100 5100 5100,
        DebounceFire 5500 5500, Input Years 11 5600 5600 5600, DebounceFire 6100 6100,
        Input Years 12 6150 6150 6150,
        Respond 0 (reply (2500000, 6, 11) 4745746) 6200 6200 6200 6200,
        DebounceFire 6650 6650])
     = Some [(7200, (2500000, 6, 11))] \<and>
   map_option calls
     (run init_state [Mount 5000 5000 5000, Respond 0 sample_ok 5100 5100 5100 5100,
        DebounceFire 5500 5500, Input Years 11 5600 5600 5600, DebounceFire 6100 6100,
        Input Years 12 6150 6150 6150,
        Respond 0 (reply (2500000, 6, 11) 4745746) 6200 6200 6200 6200,
        DebounceFire 6650 6650, RetryFire 0 7200 7200])
     = Some [(2500000, 6, 10), (2500000, 6, 10), (2500000, 6, 11), (2500000, 6, 11),
             (2500000, 6, 12), (2500000, 6, 12), (2500000, 6, 11)] \<and>
   map_option current_inputs
     (run init_state [Mount 5000 5000 5000, Respond 0 sample_ok 5100 5100 5100 5100,
        DebounceFire 5500 5500, Input Years 11 5600 5600 5600, DebounceFire 6100 6100,
        Input Years 12 6150 6150 6150,
        Respond 0 (reply (2500000, 6, 11) 4745746) 6200 6200 6200 6200,
        DebounceFire 6650 6650, RetryFire 0 7200 7200])
     = Some (2500000, 6, 12) \<and>
   map_option sent
     (run init_state [Mount 5000 5000 5000, Respond 0 sample_ok 5100 5100 5100 5100,
        DebounceFire 5500 5500, Input Years 11 5600 5600 5600, DebounceFire 6100 6100,
        Input Years 12 6150 6150 6150,
        Respond 0 (reply (2500000, 6, 11) 4745746) 6200 6200 6200 6200,
        DebounceFire 6650 6650, RetryFire 0 7200 7200])
     = Some [(2500000, 6, 10), (2500000, 6, 11)] \<and>
   map_option result
     (run init_state [Mount 5000 5000 5000, Respond 0 sample_ok 5100 5100 5100 5100,
        DebounceFire 5500 5500, Input Years 11 5600 5600 5600, DebounceFire 6100 6100,
        Input Years 12 6150 6150 6150,
        Respond 0 (reply (2500000, 6, 11) 4745746) 6200 6200 6200 6200,
        DebounceFire 6650 6650, RetryFire 0 7200 7200])
     = Some (Some \<lparr>current_cost = JNum 2500000, inflation_rate = JNum 6, no_years = JNum 11,
                   future_amount = JNum 4745746\<rparr>)"
  by (simp add: run_defs reply_def)

text \<open>
  Claim C10. When the response to an outstanding request is a failure, rate-limited or
  not, the current result is left as it was, and so are the cache, the three inputs and
  \<open>mounted\<close>; of the state the component renders, only the error, now the message of the
  failure, and the loading flag, now off, are written.
\<close>

theorem failure_keeps_result:
  assumes n: "i < length (outstanding s)"
    and f: "outcome_of resp = RateLimited \<or> outcome_of resp = Failed m"
  shows "let s' = step (Respond i resp ts tc td tf) s in
     result s' = result s \<and> cache s' = cache s \<and> currentCost s' = currentCost s \<and>
     inflationRate s' = inflationRate s \<and> years s' = years s \<and> mounted s' = mounted s \<and>
     loading s' = False \<and>
     error s' = Some (if outcome_of resp = RateLimited then rate_limit_message else m)"
  using n f by (auto simp: respond_fields Let_def)

text \<open>The second request of the sample run fails, or is rate-limited, while the first result is shown.\<close>

theorem failure_keeps_result_witness:
  "run init_state queued_events = Some queued_state \<and>
   result queued_state = Some sample_result \<and>
   outcome_of (NetworkError ''Failed to fetch'') = Failed ''Failed to fetch'' \<and>
   result (step (Respond 0 (NetworkError ''Failed to fetch'') 6200 6200 6200 6200) queued_state)
     = Some sample_result \<and>
   error (step (Respond 0 (NetworkError ''Failed to fetch'') 6200 6200 6200 6200) queued_state)
     = Some ''Failed to fetch'' \<and>
   outcome_of (HttpResponse 429 JsonNull) = RateLimited \<and>
   result (step (Respond 0 (HttpResponse 429 JsonNull) 6200 6200 6200 6200) queued_state)
     = Some sample_result \<and>
   error (step (Respond 0 (HttpResponse 429 JsonNull) 6200 6200 6200 6200) queued_state)
     = Some rate_limit_message"
proof -
  have n: "0 < length (outstanding queued_state)" by (simp add: queued_state_def)
  have f: "outcome_of (NetworkError ''Failed to fetch'') = Failed ''Failed to fetch''"
    by (simp add: outcome_of_def)
  have l: "outcome_of (HttpResponse 429 JsonNull) = RateLimited"
    by (simp add: outcome_of_def)
  have r: "result queued_state = Some sample_result" by (simp add: queued_state_def)
  from failure_keeps_result [OF n disjI2 [OF f], where ts = 6200 and tc = 6200 and td = 6200
      and tf = 6200] f r
  have a: "result (step (Respond 0 (NetworkError ''Failed to fetch'') 6200 6200 6200 6200)
      queued_state) = Some sample_result \<and>
    error (step (Respond 0 (NetworkError ''Failed to fetch'') 6200 6200 6200 6200) queued_state)
      = Some ''Failed to fetch''"
    by (simp add: Let_def)
  from failure_keeps_result [OF n disjI1 [OF l], where ts = 6200 and tc = 6200 and td = 6200
      and tf = 6200 and m = "[]"] l r
  have b: "result (step (Respond 0 (HttpResponse 429 JsonNull) 6200 6200 6200 6200) queued_state)
      = Some sample_result \<and>
    error (step (Respond 0 (HttpResponse 429 JsonNull) 6200 6200 6200 6200) queued_state)
      = Some rate_limit_message"
    by (simp add: Let_def)
  from a b f l r run_queued show ?thesis by simp
qed

end
